theory Spec2Isabelle
  imports Complex_Main
begin

section \<open>tinyDVR: configuration constants\<close>

text \<open>
  The module-level constants of \<^verbatim>\<open>tinyDVR.py\<close> that the supervisor loop reads.
  Python floats (time stamps, durations) are modelled as reals; floating-point rounding
  is not part of the model.
\<close>

definition SEGMENT_SECONDS :: int where
  "SEGMENT_SECONDS = 60"

definition MAX_STORAGE_GB :: int where
  "MAX_STORAGE_GB = 10"

definition CHECK_EVERY_SECONDS :: real where
  "CHECK_EVERY_SECONDS = 10"

definition NO_PROGRESS_TIMEOUT_SECONDS :: real where
  "NO_PROGRESS_TIMEOUT_SECONDS = 45"

definition RESTART_BACKOFF_SECONDS :: real where
  "RESTART_BACKOFF_SECONDS = 5"

definition RTSP_TRANSPORT :: string where
  "RTSP_TRANSPORT = ''tcp''"

definition ENABLE_RESOURCE_LOG :: bool where
  "ENABLE_RESOURCE_LOG = True"

text \<open>\<^verbatim>\<open>int(x)\<close> on a float truncates towards zero.\<close>

definition py_int :: "real \<Rightarrow> int" where
  "py_int x = (if 0 \<le> x then \<lfloor>x\<rfloor> else \<lceil>x\<rceil>)"

definition bytes_from_gb :: "real \<Rightarrow> int" where
  "bytes_from_gb gb = py_int (gb * 1024 * 1024 * 1024)"


section \<open>The output directory as the operating system shows it\<close>

text \<open>
  Exceptions of the OS calls are values. \<open>FileNotFoundError\<close> is the one class the
  source catches by name; the other constructors stand for every exception that only
  \<^verbatim>\<open>except Exception\<close> catches (\<open>OSError\<close> for any further one, such as a full disk).
\<close>

datatype os_error =
  FileNotFoundError | PermissionError | IsADirectoryError | NotADirectoryError | OSError

datatype json = JNull | JBool bool | JInt int | JFloat real | JStr string | JIsoTime real

text \<open>
  A status dictionary keeps its keys in insertion order, as a Python \<^verbatim>\<open>dict\<close> does.
  \<open>JIsoTime t\<close> is the string \<^verbatim>\<open>datetime.isoformat()\<close> gives for the instant \<open>t\<close>.
\<close>

type_synonym status = "(string \<times> json) list"

text \<open>
  One directory entry, described by what the OS answers for it:
  \<^item> \<open>stat_res\<close>: the result of \<^verbatim>\<open>os.stat\<close>, \<open>(st_mtime, st_size)\<close> or the exception raised
    (\<open>FileNotFoundError\<close> for a dangling link or a file that vanished after the listing);
  \<^item> \<open>unlink_res\<close>: the exception \<^verbatim>\<open>os.remove\<close> raises, \<open>None\<close> when the entry is removed;
    \<open>Some FileNotFoundError\<close> is a file another process removed after it was listed;
  \<^item> \<open>doc\<close>: the record held by a file that \<open>write_status\<close> wrote.
\<close>

record node =
  stat_res :: "os_error + real \<times> nat"
  unlink_res :: "os_error option"
  doc :: "status option"

text \<open>
  The entries of \<^verbatim>\<open>OUTPUT_DIR\<close> in \<^verbatim>\<open>os.listdir\<close> order. A path
  \<^verbatim>\<open>os.path.join(output_dir, name)\<close> is identified with \<open>name\<close>: the model holds this one
  directory only. \<open>Inl e\<close> is a directory that cannot be entered: listing it and opening a
  file in it raise \<open>e\<close>, \<open>FileNotFoundError\<close> when it does not exist.
\<close>

type_synonym directory = "(string \<times> node) list"

type_synonym filesystem = "os_error + directory"

definition os_listdir :: "filesystem \<Rightarrow> os_error + string list" where
  "os_listdir fs = (case fs of Inl e \<Rightarrow> Inl e | Inr d \<Rightarrow> Inr (map fst d))"

definition os_stat :: "filesystem \<Rightarrow> string \<Rightarrow> os_error + real \<times> nat" where
  "os_stat fs p =
     (case fs of
        Inl e \<Rightarrow> Inl e
      | Inr d \<Rightarrow> (case map_of d p of None \<Rightarrow> Inl FileNotFoundError | Some n \<Rightarrow> stat_res n))"

definition unlink :: "string \<Rightarrow> directory \<Rightarrow> directory" where
  "unlink p d = filter (\<lambda>(name, n). name \<noteq> p) d"

text \<open>\<^verbatim>\<open>os.remove\<close>: the exception raised, if any, and the directory afterwards.\<close>

definition os_remove :: "string \<Rightarrow> filesystem \<Rightarrow> os_error option \<times> filesystem" where
  "os_remove p fs =
     (case fs of
        Inl e \<Rightarrow> (Some e, fs)
      | Inr d \<Rightarrow>
          (case map_of d p of
             None \<Rightarrow> (Some FileNotFoundError, fs)
           | Some n \<Rightarrow>
               (case unlink_res n of
                  None \<Rightarrow> (None, Inr (unlink p d))
                | Some e \<Rightarrow>
                    if e = FileNotFoundError then (Some e, Inr (unlink p d))
                    else (Some e, fs))))"


section \<open>File inventory\<close>

definition endswith :: "string \<Rightarrow> string \<Rightarrow> bool" where
  "endswith s suffix =
     (length suffix \<le> length s \<and> drop (length s - length suffix) s = suffix)"

text \<open>A segment is the tuple \<^verbatim>\<open>(full_path, mtime, size_bytes)\<close>.\<close>

type_synonym segment = "string \<times> real \<times> nat"

text \<open>
  The \<^verbatim>\<open>for name in os.listdir(output_dir)\<close> loop: a vanished entry is skipped, any other
  exception of \<^verbatim>\<open>os.stat\<close> leaves the function.
\<close>

fun collect_files :: "filesystem \<Rightarrow> string list \<Rightarrow> os_error + segment list" where
  "collect_files fs [] = Inr []"
| "collect_files fs (name # names) =
     (if endswith name ''.mp4'' then
        (case os_stat fs name of
           Inr (mt, sz) \<Rightarrow>
             (case collect_files fs names of
                Inl e \<Rightarrow> Inl e
              | Inr files \<Rightarrow> Inr ((name, mt, sz) # files))
         | Inl e \<Rightarrow>
             if e = FileNotFoundError then collect_files fs names else Inl e)
      else collect_files fs names)"

definition list_recording_files :: "filesystem \<Rightarrow> os_error + segment list" where
  "list_recording_files fs =
     (case os_listdir fs of
        Inl e \<Rightarrow> if e = FileNotFoundError then Inr [] else Inl e
      | Inr names \<Rightarrow>
          (case collect_files fs names of
             Inl e \<Rightarrow> Inl e
           | Inr files \<Rightarrow> Inr (sort_key (\<lambda>(p, mt, sz). mt) files)))"

definition total_size :: "segment list \<Rightarrow> int" where
  "total_size files = sum_list (map (\<lambda>(p, mt, sz). int sz) files)"

definition folder_size_bytes :: "filesystem \<Rightarrow> os_error + int" where
  "folder_size_bytes fs =
     (case list_recording_files fs of Inl e \<Rightarrow> Inl e | Inr files \<Rightarrow> Inr (total_size files))"

definition newest_recording_mtime :: "filesystem \<Rightarrow> os_error + real option" where
  "newest_recording_mtime fs =
     (case list_recording_files fs of
        Inl e \<Rightarrow> Inl e
      | Inr files \<Rightarrow> Inr (if files = [] then None else Some (fst (snd (last files)))))"


section \<open>Storage reclaimer\<close>

text \<open>What the supervisor does that an observer can see, in the order it happens.\<close>

datatype event =
    Deleted string
  | DeleteFailed string os_error
  | Published status
  | Spawned nat

text \<open>
  The \<^verbatim>\<open>while total > max_bytes and files\<close> loop of \<open>enforce_storage_cap\<close>, with
  \<^verbatim>\<open>files.pop(0)\<close> as the head of the list, \<open>tot\<close> for the variable \<^verbatim>\<open>total\<close>, and
  \<open>out\<close> for the two \<^verbatim>\<open>[storage]\<close> lines printed.
\<close>

fun reclaim_loop ::
  "int \<Rightarrow> segment list \<Rightarrow> int \<Rightarrow> nat \<Rightarrow> event list \<Rightarrow> filesystem
     \<Rightarrow> nat \<times> event list \<times> filesystem" where
  "reclaim_loop max_bytes [] tot deleted out fs = (deleted, out, fs)"
| "reclaim_loop max_bytes ((p, mt, sz) # files) tot deleted out fs =
     (if tot > max_bytes then
        (case os_remove p fs of
           (None, fs') \<Rightarrow>
             reclaim_loop max_bytes files (tot - int sz) (deleted + 1) (out @ [Deleted p]) fs'
         | (Some e, fs') \<Rightarrow>
             if e = FileNotFoundError then reclaim_loop max_bytes files tot deleted out fs'
             else (deleted, out @ [DeleteFailed p e], fs'))
      else (deleted, out, fs))"

definition enforce_storage_cap ::
  "filesystem \<Rightarrow> int \<Rightarrow> os_error + nat \<times> event list \<times> filesystem" where
  "enforce_storage_cap fs max_bytes =
     (case list_recording_files fs of
        Inl e \<Rightarrow> Inl e
      | Inr files \<Rightarrow> Inr (reclaim_loop max_bytes files (total_size files) 0 [] fs))"


section \<open>Status publisher\<close>

text \<open>
  \<^verbatim>\<open>open(path, "w")\<close>: the entry is created, or overwritten where it stands.
\<close>

definition put_entry :: "string \<Rightarrow> node \<Rightarrow> directory \<Rightarrow> directory" where
  "put_entry p n d =
     (if p \<in> set (map fst d) then map (\<lambda>(name, x). if name = p then (name, n) else (name, x)) d
      else d @ [(p, n)])"

text \<open>\<^verbatim>\<open>os.replace(src, dst)\<close>: \<open>dst\<close> becomes the file \<open>src\<close> was, \<open>src\<close> is gone.\<close>

definition os_replace :: "string \<Rightarrow> string \<Rightarrow> directory \<Rightarrow> os_error + directory" where
  "os_replace src dst d =
     (case map_of d src of
        None \<Rightarrow> Inl FileNotFoundError
      | Some n \<Rightarrow> Inr (put_entry dst n (unlink src d)))"

text \<open>
  What the three calls of \<open>write_status\<close> answer in a directory that exists:
  \<^item> \<open>open_raises\<close>: the exception of \<^verbatim>\<open>open(tmp, "w")\<close>, if any (a directory that cannot be
    written, a temporary name that is itself a directory);
  \<^item> \<open>dump_raises\<close>: the exception of \<^verbatim>\<open>json.dump\<close> or of closing the file, if any (a full
    disk), with the number of bytes that reached the file before it;
  \<^item> \<open>replace_raises\<close>: the exception of \<^verbatim>\<open>os.replace\<close>, if any.
\<close>

record io_answers =
  open_raises :: "os_error option"
  dump_raises :: "(os_error \<times> nat) option"
  replace_raises :: "os_error option"

text \<open>The answers when the status file can be written.\<close>

definition working_io :: io_answers where
  "working_io = \<lparr>open_raises = None, dump_raises = None, replace_raises = None\<rparr>"

text \<open>
  \<^verbatim>\<open>json.dump\<close> is library code: \<open>dumps\<close> is the text it produces, taken as a parameter.
  The result is the exception raised, if any, and the directory afterwards. Opening the
  temporary file creates or truncates it; a failed dump leaves it with the part written;
  \<^verbatim>\<open>status.json\<close> changes only in the last step, when the temporary file, holding the
  record and as long as the text, is renamed over it.
\<close>

definition write_status ::
  "(status \<Rightarrow> string) \<Rightarrow> io_answers \<Rightarrow> real \<Rightarrow> filesystem \<Rightarrow> status
     \<Rightarrow> os_error option \<times> filesystem" where
  "write_status dumps ans now fs status =
     (let tmp = ''status.json.tmp'';
          final = ''status.json''
      in case fs of
           Inl e \<Rightarrow> (Some e, fs)
         | Inr d \<Rightarrow>
             (case open_raises ans of
                Some e \<Rightarrow> (Some e, fs)
              | None \<Rightarrow>
                  (case dump_raises ans of
                     Some (e, n) \<Rightarrow>
                       (Some e,
                        Inr (put_entry tmp
                               \<lparr>stat_res = Inr (now, min n (length (dumps status))),
                                unlink_res = None, doc = None\<rparr> d))
                   | None \<Rightarrow>
                       (let d1 = put_entry tmp
                                   \<lparr>stat_res = Inr (now, length (dumps status)),
                                    unlink_res = None, doc = Some status\<rparr> d
                        in case replace_raises ans of
                             Some e \<Rightarrow> (Some e, Inr d1)
                           | None \<Rightarrow>
                               (case os_replace tmp final d1 of
                                  Inl e \<Rightarrow> (Some e, Inr d1)
                                | Inr d2 \<Rightarrow> (None, Inr d2))))))"


section \<open>The supervisor loop\<close>

text \<open>
  What \<^verbatim>\<open>psutil\<close> answers for the child: \<open>PsFailed\<close> when \<^verbatim>\<open>psutil.Process\<close> or
  \<^verbatim>\<open>cpu_percent\<close> raises, \<open>PsCpuOnly\<close> when only \<^verbatim>\<open>memory_info\<close> raises, else the CPU
  percentage and the resident set size in bytes.
\<close>

datatype ps_answer = PsFailed | PsCpuOnly real | PsSample real nat

text \<open>
  The world outside the supervisor: the output directory, the wall clock
  (\<^verbatim>\<open>time.time()\<close>), the child process (\<open>child_exit\<close> is what \<^verbatim>\<open>proc.poll()\<close> returns,
  \<open>child_stderr_tail\<close> what \<open>tail_stderr(proc)\<close> returns), the answer the next
  \<^verbatim>\<open>subprocess.Popen\<close> gives (an exception or the new child's pid), the answer of
  \<^verbatim>\<open>psutil\<close>, the answers to the calls that write the status file, the value of
  \<^verbatim>\<open>os.path.abspath(OUTPUT_DIR)\<close>, and the timed trace of what the supervisor did. Only
  \<^verbatim>\<open>time.sleep\<close> moves the clock.
\<close>

record world =
  disk :: filesystem
  clock :: real
  child_exit :: "int option"
  child_stderr_tail :: string
  popen_res :: "os_error + nat"
  psutil_res :: ps_answer
  status_io :: io_answers
  abs_output_dir :: string
  trace :: "(real \<times> event) list"

text \<open>The local variables of \<open>main\<close> that live across iterations.\<close>

record supervisor =
  proc_pid :: nat
  last_ok_time :: real

definition time_sleep :: "real \<Rightarrow> world \<Rightarrow> world" where
  "time_sleep secs w = w\<lparr>clock := clock w + secs\<rparr>"

definition emit :: "event list \<Rightarrow> world \<Rightarrow> world" where
  "emit evs w = w\<lparr>trace := trace w @ map (Pair (clock w)) evs\<rparr>"

text \<open>\<^verbatim>\<open>round(x, 1)\<close>: to one decimal, ties to the even neighbour.\<close>

definition round_half_even :: "real \<Rightarrow> int" where
  "round_half_even x =
     (let f = \<lfloor>x\<rfloor>; r = x - of_int f
      in if r < 1 / 2 then f else if 1 / 2 < r then f + 1 else if even f then f else f + 1)"

definition py_round1 :: "real \<Rightarrow> real" where
  "py_round1 x = of_int (round_half_even (x * 10)) / 10"

text \<open>The \<^verbatim>\<open>if ENABLE_RESOURCE_LOG\<close> block: \<open>(cpu, mem_mb)\<close>, an exception leaves what was set.\<close>

definition resource_usage :: "world \<Rightarrow> real option \<times> real option" where
  "resource_usage w =
     (if ENABLE_RESOURCE_LOG then
        (case psutil_res w of
           PsFailed \<Rightarrow> (None, None)
         | PsCpuOnly c \<Rightarrow> (Some c, None)
         | PsSample c rss \<Rightarrow> (Some c, Some (real rss / (1024 * 1024))))
      else (None, None))"

definition json_opt :: "real option \<Rightarrow> json" where
  "json_opt v = (case v of None \<Rightarrow> JNull | Some x \<Rightarrow> JFloat x)"

text \<open>The dictionary built when \<^verbatim>\<open>proc.poll()\<close> is not \<^verbatim>\<open>None\<close> (lines 258-264).\<close>

definition exit_status :: "world \<Rightarrow> status" where
  "exit_status w =
     [(''recording'', JBool False),
      (''reason'', JStr ''ffmpeg_exited''),
      (''timestamp'', JIsoTime (clock w)),
      (''ffmpeg_pid'', JNull),
      (''ffmpeg_stderr_tail'', JStr (child_stderr_tail w))]"

text \<open>The dictionary built at the end of an iteration (lines 305-320).\<close>

definition tick_status ::
  "supervisor \<Rightarrow> world \<Rightarrow> bool \<Rightarrow> string \<Rightarrow> int \<Rightarrow> real option \<Rightarrow> real \<Rightarrow> real
     \<Rightarrow> real option \<Rightarrow> real option \<Rightarrow> nat \<Rightarrow> status" where
  "tick_status s w healthy reason folder_bytes newest_mtime now last_ok cpu mem_mb deleted =
     [(''recording'', JBool healthy),
      (''reason'', JStr reason),
      (''timestamp'', JIsoTime (clock w)),
      (''rtsp_transport'', JStr RTSP_TRANSPORT),
      (''segment_seconds'', JInt SEGMENT_SECONDS),
      (''max_storage_gb'', JInt MAX_STORAGE_GB),
      (''output_dir'', JStr (abs_output_dir w)),
      (''folder_size_bytes'', JInt folder_bytes),
      (''newest_segment_mtime'', json_opt newest_mtime),
      (''seconds_since_last_ok'', JFloat (py_round1 (now - last_ok))),
      (''ffmpeg_pid'', JInt (int (proc_pid s))),
      (''ffmpeg_cpu_percent'', json_opt cpu),
      (''ffmpeg_mem_mb'', json_opt mem_mb),
      (''deleted_files_this_check'', JInt (int deleted))]"

text \<open>The health check of lines 283-289: \<open>(healthy, reason, last_ok_time)\<close>.\<close>

definition health_check :: "real option \<Rightarrow> real \<Rightarrow> real \<Rightarrow> bool \<times> string \<times> real" where
  "health_check newest_mtime now last_ok =
     (if (case newest_mtime of None \<Rightarrow> False
          | Some mt \<Rightarrow> now - mt \<le> NO_PROGRESS_TIMEOUT_SECONDS)
      then (True, ''ok'', now)
      else (False, ''no_new_segments'', last_ok))"

text \<open>
  One iteration of \<^verbatim>\<open>while True\<close> in \<open>main\<close>. The result is the exception that ended
  \<open>main\<close>, if any, with the supervisor's variables and the world as they are then.
\<close>

definition tick ::
  "(status \<Rightarrow> string) \<Rightarrow> supervisor \<Rightarrow> world \<Rightarrow> os_error option \<times> supervisor \<times> world" where
  "tick dumps s w0 =
     (let max_bytes = bytes_from_gb (real_of_int MAX_STORAGE_GB);
          w = time_sleep CHECK_EVERY_SECONDS w0
      in if child_exit w \<noteq> None then
           (let status = exit_status w
            in case write_status dumps (status_io w) (clock w) (disk w) status of
                 (Some e, fs1) \<Rightarrow> (Some e, s, w\<lparr>disk := fs1\<rparr>)
               | (None, fs1) \<Rightarrow>
                   (let w1 = emit [Published status] (w\<lparr>disk := fs1\<rparr>);
                        w2 = time_sleep RESTART_BACKOFF_SECONDS w1
                    in case popen_res w2 of
                         Inl e \<Rightarrow> (Some e, s, w2)
                       | Inr pid \<Rightarrow>
                           (None,
                            s\<lparr>proc_pid := pid, last_ok_time := clock w2\<rparr>,
                            emit [Spawned pid]
                              (w2\<lparr>child_exit := None, child_stderr_tail := []\<rparr>))))
         else
           (case newest_recording_mtime (disk w) of
              Inl e \<Rightarrow> (Some e, s, w)
            | Inr newest_mtime \<Rightarrow>
                (let now = clock w;
                     (healthy, reason, last_ok) = health_check newest_mtime now (last_ok_time s);
                     s1 = s\<lparr>last_ok_time := last_ok\<rparr>
                 in case enforce_storage_cap (disk w) max_bytes of
                      Inl e \<Rightarrow> (Some e, s1, w)
                    | Inr (deleted, out, fs1) \<Rightarrow>
                        (let w1 = emit out (w\<lparr>disk := fs1\<rparr>)
                         in case folder_size_bytes fs1 of
                              Inl e \<Rightarrow> (Some e, s1, w1)
                            | Inr folder_bytes \<Rightarrow>
                                (let (cpu, mem_mb) = resource_usage w1;
                                     status = tick_status s1 w1 healthy reason folder_bytes
                                                newest_mtime now last_ok cpu mem_mb deleted
                                 in case write_status dumps (status_io w1) (clock w1) fs1
                                           status of
                                      (Some e, fs2) \<Rightarrow> (Some e, s1, w1\<lparr>disk := fs2\<rparr>)
                                    | (None, fs2) \<Rightarrow>
                                        (None, s1,
                                         emit [Published status] (w1\<lparr>disk := fs2\<rparr>)))))))"


section \<open>Reading the trace\<close>

text \<open>The paths of the \<open>Deleted\<close> events, and the records of the \<open>Published\<close> events.\<close>

fun deleted_paths :: "event list \<Rightarrow> string list" where
  "deleted_paths [] = []"
| "deleted_paths (Deleted p # evs) = p # deleted_paths evs"
| "deleted_paths (ev # evs) = deleted_paths evs"

fun published :: "event list \<Rightarrow> status list" where
  "published [] = []"
| "published (Published st # evs) = st # published evs"
| "published (ev # evs) = published evs"

text \<open>The events an iteration added when it took the world from \<open>w\<close> to \<open>w'\<close>.\<close>

definition new_events :: "world \<Rightarrow> world \<Rightarrow> (real \<times> event) list" where
  "new_events w w' = drop (length (trace w)) (trace w')"

text \<open>The record a reader finds in \<^verbatim>\<open>status.json\<close>, if the file is there and holds one.\<close>

definition status_file :: "filesystem \<Rightarrow> status option" where
  "status_file fs =
     (case fs of
        Inl e \<Rightarrow> None
      | Inr d \<Rightarrow> (case map_of d ''status.json'' of None \<Rightarrow> None | Some n \<Rightarrow> doc n))"

definition last_published :: "world \<Rightarrow> status option" where
  "last_published w =
     (case published (map snd (trace w)) of [] \<Rightarrow> None | st # sts \<Rightarrow> Some (last (st # sts)))"

text \<open>
  The ten fields the specification lists for a StatusRecord (healthy, reason, observedAt,
  folderSizeBytes, newestSegmentTimestamp, secondsSinceLastHealthy, deletedThisTick,
  processId, cpuPercent, memoryMb), under the keys the program writes them with.
\<close>

definition status_record_fields :: "string list" where
  "status_record_fields =
     [''recording'', ''reason'', ''timestamp'', ''folder_size_bytes'', ''newest_segment_mtime'',
      ''seconds_since_last_ok'', ''deleted_files_this_check'', ''ffmpeg_pid'',
      ''ffmpeg_cpu_percent'', ''ffmpeg_mem_mb'']"


section \<open>Sample directories and worlds\<close>

text \<open>An ordinary segment file: \<^verbatim>\<open>os.stat\<close> and \<^verbatim>\<open>os.remove\<close> succeed.\<close>

definition media :: "real \<Rightarrow> nat \<Rightarrow> node" where
  "media mt sz = \<lparr>stat_res = Inr (mt, sz), unlink_res = None, doc = None\<rparr>"

definition two_gb :: nat where
  "two_gb = 2 * 1024 * 1024 * 1024"

text \<open>Five segments of 2 GB, listed out of order, and the same directory with a sixth.\<close>

definition scenario_five :: directory where
  "scenario_five =
     [(''seg3.mp4'', media 180 two_gb), (''seg2.mp4'', media 120 two_gb),
      (''seg5.mp4'', media 300 two_gb), (''seg4.mp4'', media 240 two_gb),
      (''seg1.mp4'', media 60 two_gb)]"

definition scenario_six :: directory where
  "scenario_six = (''seg6.mp4'', media 360 two_gb) # scenario_five"

text \<open>
  Four segments of 700 bytes: the oldest is gone by the time it is removed, the third
  cannot be removed.
\<close>

definition faulty_directory :: directory where
  "faulty_directory =
     [(''old1.mp4'', \<lparr>stat_res = Inr (10, 700), unlink_res = Some FileNotFoundError, doc = None\<rparr>),
      (''old2.mp4'', media 20 700),
      (''old3.mp4'', \<lparr>stat_res = Inr (30, 700), unlink_res = Some PermissionError, doc = None\<rparr>),
      (''old4.mp4'', media 40 700)]"

text \<open>Two segments beside a status file and its temporary sibling.\<close>

definition mixed_directory :: directory where
  "mixed_directory =
     [(''status.json'', \<lparr>stat_res = Inr (500, 900), unlink_res = None, doc = Some []\<rparr>),
      (''seg1.mp4'', media 60 700),
      (''status.json.tmp'', \<lparr>stat_res = Inr (10, 900), unlink_res = None, doc = Some []\<rparr>),
      (''seg2.mp4'', media 120 700)]"

text \<open>A stand-in for the text \<^verbatim>\<open>json.dump\<close> writes: the keys, run together.\<close>

definition key_dumps :: "status \<Rightarrow> string" where
  "key_dumps st = concat (map fst st)"

text \<open>The supervisor's variables right after start-up at time 1000.\<close>

definition started :: supervisor where
  "started = \<lparr>proc_pid = 4241, last_ok_time = 1000\<rparr>"

text \<open>A running child and an empty output directory that can be written.\<close>

definition idle_world :: world where
  "idle_world =
     \<lparr>disk = Inr [], clock = 1000, child_exit = None, child_stderr_tail = [],
      popen_res = Inr 4242, psutil_res = PsFailed, status_io = working_io,
      abs_output_dir = ''/srv/recordings'', trace = []\<rparr>"

text \<open>The child has exited with code 1 and the directory holds 12 GB.\<close>

definition crashed_world :: world where
  "crashed_world =
     idle_world\<lparr>disk := Inr scenario_six, child_exit := Some 1,
                child_stderr_tail := ''Connection refused''\<rparr>"

text \<open>A running child that stopped writing: one segment, last touched at time 900.\<close>

definition stale_world :: world where
  "stale_world = idle_world\<lparr>disk := Inr [(''seg1.mp4'', media 900 700)]\<rparr>"

text \<open>The same, but the segment will be exactly 45 seconds old at the next check.\<close>

definition boundary_world :: world where
  "boundary_world = idle_world\<lparr>disk := Inr [(''seg1.mp4'', media 965 700)]\<rparr>"

text \<open>A running child and the six segments, 2 GB over the cap.\<close>

definition full_world :: world where
  "full_world = idle_world\<lparr>disk := Inr scenario_six\<rparr>"

text \<open>A running child whose output directory is not there.\<close>

definition absent_world :: world where
  "absent_world = idle_world\<lparr>disk := Inl FileNotFoundError\<rparr>"

text \<open>The answers in a directory that can be listed but not written.\<close>

definition unwritable_io :: io_answers where
  "unwritable_io = working_io\<lparr>open_raises := Some PermissionError\<rparr>"

text \<open>A running child and an empty output directory that cannot be written.\<close>

definition unwritable_world :: world where
  "unwritable_world = idle_world\<lparr>status_io := unwritable_io\<rparr>"


section \<open>Lemmas on the inventory and the reclaimer\<close>

lemma map_of_unlink: "map_of (unlink p d) q = (if q = p then None else map_of d q)"
  by (induction d) (auto simp: unlink_def)

lemma map_of_filter_names:
  "map_of (filter (\<lambda>(name, n). Q name) d) q = (if Q q then map_of d q else None)"
  by (induction d) auto

lemma map_fst_filter_names:
  "map fst (filter (\<lambda>(name, n). Q name) d) = filter Q (map fst d)"
  by (induction d) auto

lemma collect_files_cong:
  "(\<And>n. n \<in> set names \<Longrightarrow> endswith n ''.mp4'' \<Longrightarrow> os_stat fs' n = os_stat fs n)
   \<Longrightarrow> collect_files fs' names = collect_files fs names"
proof (induction names)
  case Nil
  then show ?case by simp
next
  case (Cons name names)
  have "collect_files fs' names = collect_files fs names"
    using Cons by simp
  moreover have "endswith name ''.mp4'' \<Longrightarrow> os_stat fs' name = os_stat fs name"
    using Cons.prems by simp
  ultimately show ?case by (simp split: sum.splits)
qed

lemma collect_files_filter:
  "collect_files fs names = Inr files
   \<Longrightarrow> collect_files fs (filter Q names) = Inr (filter (\<lambda>(p, mt, sz). Q p) files)"
proof (induction names arbitrary: files)
  case Nil
  then show ?case by simp
next
  case (Cons name names)
  then show ?case
    by (auto split: if_splits sum.splits)
qed

lemma collect_files_names:
  "collect_files fs names = Inr files
   \<Longrightarrow> map fst files = filter (\<lambda>n. endswith n ''.mp4'' \<and> (\<exists>r. os_stat fs n = Inr r)) names"
proof (induction names arbitrary: files)
  case Nil
  then show ?case by simp
next
  case (Cons name names)
  then show ?case
    by (auto split: if_splits sum.splits)
qed

lemma collect_files_stat:
  "collect_files fs names = Inr files \<Longrightarrow> (p, mt, sz) \<in> set files
   \<Longrightarrow> endswith p ''.mp4'' \<and> p \<in> set names \<and> os_stat fs p = Inr (mt, sz)"
proof (induction names arbitrary: files)
  case Nil
  then show ?case by simp
next
  case (Cons name names)
  then show ?case
    by (auto split: if_splits sum.splits)
qed

lemma os_stat_filter_names:
  "Q p \<Longrightarrow> os_stat (Inr (filter (\<lambda>(name, n). Q name) d)) p = os_stat (Inr d) p"
  by (simp add: os_stat_def map_of_filter_names)

lemma list_recording_files_filter:
  assumes "list_recording_files (Inr d) = Inr files"
  shows "list_recording_files (Inr (filter (\<lambda>(name, n). Q name) d))
         = Inr (filter (\<lambda>(p, mt, sz). Q p) files)"
proof -
  let ?d' = "filter (\<lambda>(name, n). Q name) d"
  obtain raw where raw: "collect_files (Inr d) (map fst d) = Inr raw"
    and files: "files = sort_key (\<lambda>(p, mt, sz). mt) raw"
    using assms by (auto simp: list_recording_files_def os_listdir_def split: sum.splits)
  have "collect_files (Inr ?d') (filter Q (map fst d)) = collect_files (Inr d) (filter Q (map fst d))"
    by (rule collect_files_cong) (simp add: os_stat_filter_names)
  also have "\<dots> = Inr (filter (\<lambda>(p, mt, sz). Q p) raw)"
    using raw by (rule collect_files_filter)
  finally have "collect_files (Inr ?d') (map fst ?d') = Inr (filter (\<lambda>(p, mt, sz). Q p) raw)"
    by (simp add: map_fst_filter_names)
  then show ?thesis
    by (simp add: list_recording_files_def os_listdir_def files filter_sort)
qed

lemma list_recording_files_distinct:
  assumes "list_recording_files (Inr d) = Inr files" and "distinct (map fst d)"
  shows "distinct (map fst files)"
proof -
  obtain raw where raw: "collect_files (Inr d) (map fst d) = Inr raw"
    and files: "files = sort_key (\<lambda>(p, mt, sz). mt) raw"
    using assms(1) by (auto simp: list_recording_files_def os_listdir_def split: sum.splits)
  have "distinct (map fst raw)"
    using collect_files_names [OF raw] assms(2) by simp
  then show ?thesis
    by (simp add: files distinct_map)
qed

lemma list_recording_files_sorted:
  "list_recording_files fs = Inr files \<Longrightarrow> sorted (map (\<lambda>(p, mt, sz). mt) files)"
  by (auto simp: list_recording_files_def split: sum.splits if_splits)

lemma list_recording_files_entry:
  assumes "list_recording_files (Inr d) = Inr files" and "(p, mt, sz) \<in> set files"
  shows "endswith p ''.mp4'' \<and> (\<exists>n. map_of d p = Some n \<and> stat_res n = Inr (mt, sz))"
proof -
  obtain raw where raw: "collect_files (Inr d) (map fst d) = Inr raw"
    and files: "files = sort_key (\<lambda>(p, mt, sz). mt) raw"
    using assms(1) by (auto simp: list_recording_files_def os_listdir_def split: sum.splits)
  have "(p, mt, sz) \<in> set raw"
    using assms(2) by (simp add: files)
  from collect_files_stat [OF raw this] show ?thesis
    by (auto simp: os_stat_def split: option.splits)
qed

lemma filter_not_in_take:
  "distinct (map fst xs)
   \<Longrightarrow> filter (\<lambda>x. fst x \<notin> set (map fst (take k xs))) xs = drop k xs"
proof (induction xs arbitrary: k)
  case Nil
  then show ?case by simp
next
  case (Cons x xs)
  show ?case
  proof (cases k)
    case 0
    then show ?thesis by simp
  next
    case (Suc j)
    have "filter (\<lambda>y. fst y \<notin> set (map fst (take j xs))) xs = drop j xs"
      using Cons by simp
    moreover have "filter (\<lambda>y. fst y \<noteq> fst x \<and> fst y \<notin> set (map fst (take j xs))) xs
                 = filter (\<lambda>y. fst y \<notin> set (map fst (take j xs))) xs"
      using Cons.prems by (intro filter_cong) (auto simp: image_iff)
    ultimately show ?thesis
      using Suc by simp
  qed
qed

lemma total_size_Cons: "total_size ((p, mt, sz) # files) = int sz + total_size files"
  by (simp add: total_size_def)

lemma total_size_drop:
  "total_size (drop j files) = total_size files - total_size (take j files)"
proof -
  have "total_size (take j files @ drop j files) = total_size (take j files) + total_size (drop j files)"
    unfolding total_size_def by (simp only: map_append sum_list_append)
  then show ?thesis by simp
qed

lemma os_remove_ok:
  "map_of d p = Some n \<Longrightarrow> unlink_res n = None
   \<Longrightarrow> os_remove p (Inr d) = (None, Inr (unlink p d))"
  by (simp add: os_remove_def)

lemma reclaim_loop_stop:
  "tot \<le> max_bytes \<Longrightarrow> reclaim_loop max_bytes files tot deleted out fs = (deleted, out, fs)"
  by (cases files) auto

lemma reclaim_loop_all_removable:
  assumes "\<forall>(p, mt, sz) \<in> set files. \<exists>n. map_of d p = Some n \<and> unlink_res n = None"
    and "distinct (map fst files)"
  shows "\<exists>k\<le>length files.
           reclaim_loop max_bytes files tot deleted out (Inr d)
             = (deleted + k,
                out @ map (\<lambda>(p, mt, sz). Deleted p) (take k files),
                Inr (filter (\<lambda>(name, n). name \<notin> set (map fst (take k files))) d))
           \<and> (\<forall>j<k. max_bytes < tot - total_size (take j files))
           \<and> (tot - total_size (take k files) \<le> max_bytes \<or> k = length files)"
  using assms
proof (induction files arbitrary: tot deleted out d)
  case Nil
  then show ?case by (simp add: total_size_def)
next
  case (Cons f files)
  obtain p mt sz where f: "f = (p, mt, sz)" by (cases f)
  show ?case
  proof (cases "max_bytes < tot")
    case False
    then have "reclaim_loop max_bytes (f # files) tot deleted out (Inr d) = (deleted, out, Inr d)"
      by (simp add: reclaim_loop_stop)
    with False show ?thesis
      by (intro exI [of _ 0]) (simp add: total_size_def)
  next
    case True
    obtain n where n: "map_of d p = Some n" "unlink_res n = None"
      using Cons.prems(1) f by auto
    have rm: "os_remove p (Inr d) = (None, Inr (unlink p d))"
      using n by (rule os_remove_ok)
    have p_fresh: "p \<notin> set (map fst files)"
      using Cons.prems(2) f by simp
    have rest: "\<forall>(q, mt, sz) \<in> set files. \<exists>n. map_of (unlink p d) q = Some n \<and> unlink_res n = None"
      using Cons.prems(1) p_fresh by (force simp: map_of_unlink)
    have dist: "distinct (map fst files)"
      using Cons.prems(2) by simp
    from Cons.IH [OF rest dist, of "tot - int sz" "deleted + 1" "out @ [Deleted p]"]
    obtain k where k: "k \<le> length files"
      and run: "reclaim_loop max_bytes files (tot - int sz) (deleted + 1) (out @ [Deleted p])
                  (Inr (unlink p d))
                = (deleted + 1 + k,
                   (out @ [Deleted p]) @ map (\<lambda>(p, mt, sz). Deleted p) (take k files),
                   Inr (filter (\<lambda>(name, n). name \<notin> set (map fst (take k files))) (unlink p d)))"
      and above: "\<forall>j<k. max_bytes < tot - int sz - total_size (take j files)"
      and below: "tot - int sz - total_size (take k files) \<le> max_bytes \<or> k = length files"
      by blast
    have fs_eq: "filter (\<lambda>(name, n). name \<notin> set (map fst (take k files))) (unlink p d)
               = filter (\<lambda>(name, n). name \<notin> set (map fst (take (Suc k) (f # files)))) d"
      by (auto simp: unlink_def f intro: filter_cong)
    have "reclaim_loop max_bytes (f # files) tot deleted out (Inr d)
          = (deleted + Suc k,
             out @ map (\<lambda>(p, mt, sz). Deleted p) (take (Suc k) (f # files)),
             Inr (filter (\<lambda>(name, n). name \<notin> set (map fst (take (Suc k) (f # files)))) d))"
      using True rm run fs_eq by (simp add: f)
    moreover have "\<forall>j<Suc k. max_bytes < tot - total_size (take j (f # files))"
    proof (intro allI impI)
      fix j assume "j < Suc k"
      show "max_bytes < tot - total_size (take j (f # files))"
      proof (cases j)
        case 0
        then show ?thesis using True by (simp add: total_size_def)
      next
        case (Suc i)
        then have "i < k" using \<open>j < Suc k\<close> by simp
        then have "max_bytes < tot - int sz - total_size (take i files)"
          using above by blast
        then show ?thesis using Suc by (simp add: f total_size_Cons)
      qed
    qed
    moreover have "tot - total_size (take (Suc k) (f # files)) \<le> max_bytes
                   \<or> Suc k = length (f # files)"
      using below by (auto simp: f total_size_Cons)
    moreover have "Suc k \<le> length (f # files)"
      using k by simp
    ultimately show ?thesis
      by blast
  qed
qed

lemma enforce_storage_cap_oldest_first:
  assumes names: "distinct (map fst d)"
    and removable: "\<forall>(name, n) \<in> set d. unlink_res n = None"
    and listing: "list_recording_files (Inr d) = Inr files"
  shows "\<exists>k\<le>length files.
           enforce_storage_cap (Inr d) max_bytes
             = Inr (k, map (\<lambda>(p, mt, sz). Deleted p) (take k files),
                    Inr (filter (\<lambda>(name, n). name \<notin> set (map fst (take k files))) d))
           \<and> list_recording_files
                 (Inr (filter (\<lambda>(name, n). name \<notin> set (map fst (take k files))) d))
               = Inr (drop k files)
           \<and> sorted (map (\<lambda>(p, mt, sz). mt) files)
           \<and> (\<forall>j<k. max_bytes < total_size (drop j files))
           \<and> (total_size (drop k files) \<le> max_bytes \<or> k = length files)"
proof -
  have present: "\<forall>(p, mt, sz) \<in> set files. \<exists>n. map_of d p = Some n \<and> unlink_res n = None"
  proof (clarify)
    fix p mt sz assume "(p, mt, sz) \<in> set files"
    from list_recording_files_entry [OF listing this]
    obtain n where n: "map_of d p = Some n" by blast
    then have "(p, n) \<in> set d" by (rule map_of_SomeD)
    with removable n show "\<exists>n. map_of d p = Some n \<and> unlink_res n = None" by auto
  qed
  have dist: "distinct (map fst files)"
    using listing names by (rule list_recording_files_distinct)
  from reclaim_loop_all_removable [OF present dist, of max_bytes "total_size files" 0 "[]"]
  obtain k where k: "k \<le> length files"
    and run: "reclaim_loop max_bytes files (total_size files) 0 [] (Inr d)
              = (k, map (\<lambda>(p, mt, sz). Deleted p) (take k files),
                 Inr (filter (\<lambda>(name, n). name \<notin> set (map fst (take k files))) d))"
    and above: "\<forall>j<k. max_bytes < total_size files - total_size (take j files)"
    and below: "total_size files - total_size (take k files) \<le> max_bytes \<or> k = length files"
    by auto
  have "list_recording_files
          (Inr (filter (\<lambda>(name, n). name \<notin> set (map fst (take k files))) d))
        = Inr (filter (\<lambda>(p, mt, sz). p \<notin> set (map fst (take k files))) files)"
    using listing by (rule list_recording_files_filter)
  also have "filter (\<lambda>(p, mt, sz). p \<notin> set (map fst (take k files))) files
             = filter (\<lambda>x. fst x \<notin> set (map fst (take k files))) files"
    by (simp add: case_prod_unfold)
  also have "\<dots> = drop k files"
    using dist by (rule filter_not_in_take)
  finally have after: "list_recording_files
          (Inr (filter (\<lambda>(name, n). name \<notin> set (map fst (take k files))) d))
        = Inr (drop k files)" .
  have "enforce_storage_cap (Inr d) max_bytes
        = Inr (k, map (\<lambda>(p, mt, sz). Deleted p) (take k files),
               Inr (filter (\<lambda>(name, n). name \<notin> set (map fst (take k files))) d))"
    by (simp add: enforce_storage_cap_def listing run)
  moreover have "sorted (map (\<lambda>(p, mt, sz). mt) files)"
    using listing by (rule list_recording_files_sorted)
  moreover have "\<forall>j<k. max_bytes < total_size (drop j files)"
    using above by (simp add: total_size_drop)
  moreover have "total_size (drop k files) \<le> max_bytes \<or> k = length files"
    using below by (simp add: total_size_drop)
  ultimately show ?thesis
    using k after by blast
qed

lemma endswith_simps:
  "endswith ''seg1.mp4'' ''.mp4''" "endswith ''seg2.mp4'' ''.mp4''" "endswith ''seg3.mp4'' ''.mp4''"
  "endswith ''seg4.mp4'' ''.mp4''" "endswith ''seg5.mp4'' ''.mp4''" "endswith ''seg6.mp4'' ''.mp4''"
  by (simp_all add: endswith_def)

lemma list_six:
  "list_recording_files (Inr scenario_six) =
     Inr [(''seg1.mp4'', 60, two_gb), (''seg2.mp4'', 120, two_gb), (''seg3.mp4'', 180, two_gb),
          (''seg4.mp4'', 240, two_gb), (''seg5.mp4'', 300, two_gb), (''seg6.mp4'', 360, two_gb)]"
  by (simp add: list_recording_files_def os_listdir_def scenario_six_def scenario_five_def
      endswith_simps os_stat_def media_def)

lemma cap10: "bytes_from_gb 10 = 10737418240"
  by (simp add: bytes_from_gb_def py_int_def)

lemma run_six:
  "enforce_storage_cap (Inr scenario_six) (bytes_from_gb 10)
   = Inr (1, [Deleted ''seg1.mp4''], Inr (butlast scenario_six))"
  unfolding enforce_storage_cap_def list_six
  by (simp add: cap10 total_size_def two_gb_def os_remove_def
      scenario_six_def scenario_five_def media_def unlink_def)

lemma list_five:
  "list_recording_files (Inr scenario_five) =
     Inr [(''seg1.mp4'', 60, two_gb), (''seg2.mp4'', 120, two_gb), (''seg3.mp4'', 180, two_gb),
          (''seg4.mp4'', 240, two_gb), (''seg5.mp4'', 300, two_gb)]"
  by (simp add: list_recording_files_def os_listdir_def scenario_five_def
      endswith_simps os_stat_def media_def)

lemma run_five:
  "enforce_storage_cap (Inr scenario_five) (bytes_from_gb 10) = Inr (0, [], Inr scenario_five)"
  unfolding enforce_storage_cap_def list_five
  by (simp add: cap10 total_size_def two_gb_def)

lemma deleted_paths_append [simp]:
  "deleted_paths (xs @ ys) = deleted_paths xs @ deleted_paths ys"
  by (induction xs rule: deleted_paths.induct) auto

lemma os_remove_cases:
  assumes "os_remove p (Inr d) = (r, fs')"
  shows "(r = None \<and> fs' = Inr (unlink p d))
         \<or> (r = Some FileNotFoundError \<and> (fs' = Inr (unlink p d) \<or> fs' = Inr d))
         \<or> (\<exists>e. r = Some e \<and> e \<noteq> FileNotFoundError \<and> fs' = Inr d)"
  using assms by (auto simp: os_remove_def split: option.splits if_splits)

lemma reclaim_loop_dir:
  "\<exists>d'. snd (snd (reclaim_loop max_bytes files tot deleted out (Inr d))) = Inr d'
        \<and> (\<forall>q. q \<notin> fst ` set files \<longrightarrow> map_of d' q = map_of d q)
        \<and> (\<forall>q. map_of d q = None \<longrightarrow> map_of d' q = None)
        \<and> filter (\<lambda>(name, n). name \<notin> fst ` set files) d'
            = filter (\<lambda>(name, n). name \<notin> fst ` set files) d"
proof (induction files arbitrary: tot deleted out d)
  case Nil
  then show ?case by simp
next
  case (Cons f files)
  obtain p mt sz where f: "f = (p, mt, sz)" by (cases f)
  obtain r fs1 where rm: "os_remove p (Inr d) = (r, fs1)" by (cases "os_remove p (Inr d)")
  then obtain d1 where d1: "fs1 = Inr d1" and d1_cases: "d1 = d \<or> d1 = unlink p d"
    using os_remove_cases [OF rm] by auto
  have keep: "\<forall>q. q \<noteq> p \<longrightarrow> map_of d1 q = map_of d q"
    using d1_cases by (auto simp: map_of_unlink)
  have gone: "\<forall>q. map_of d q = None \<longrightarrow> map_of d1 q = None"
    using d1_cases by (auto simp: map_of_unlink)
  have filt: "filter (\<lambda>(name, n). name \<notin> fst ` set (f # files)) d1
            = filter (\<lambda>(name, n). name \<notin> fst ` set (f # files)) d"
    using d1_cases by (auto simp: unlink_def f intro: filter_cong)
  have step: "\<And>tot' deleted' out'. \<exists>d'.
        snd (snd (reclaim_loop max_bytes files tot' deleted' out' (Inr d1))) = Inr d'
        \<and> (\<forall>q. q \<notin> fst ` set (f # files) \<longrightarrow> map_of d' q = map_of d q)
        \<and> (\<forall>q. map_of d q = None \<longrightarrow> map_of d' q = None)
        \<and> filter (\<lambda>(name, n). name \<notin> fst ` set (f # files)) d'
            = filter (\<lambda>(name, n). name \<notin> fst ` set (f # files)) d"
  proof -
    fix tot' deleted' out'
    from Cons.IH [of tot' deleted' out' d1]
    obtain d' where d': "snd (snd (reclaim_loop max_bytes files tot' deleted' out' (Inr d1))) = Inr d'"
      and k1: "\<forall>q. q \<notin> fst ` set files \<longrightarrow> map_of d' q = map_of d1 q"
      and k2: "\<forall>q. map_of d1 q = None \<longrightarrow> map_of d' q = None"
      and k3: "filter (\<lambda>(name, n). name \<notin> fst ` set files) d'
               = filter (\<lambda>(name, n). name \<notin> fst ` set files) d1"
      by blast
    have "filter (\<lambda>(name, n). name \<noteq> p) (filter (\<lambda>(name, n). name \<notin> fst ` set files) d')
          = filter (\<lambda>(name, n). name \<noteq> p) (filter (\<lambda>(name, n). name \<notin> fst ` set files) d1)"
      using k3 by simp
    then have "filter (\<lambda>(name, n). name \<notin> fst ` set (f # files)) d'
          = filter (\<lambda>(name, n). name \<notin> fst ` set (f # files)) d1"
      by (simp add: f case_prod_unfold conj_commute)
    with filt have "filter (\<lambda>(name, n). name \<notin> fst ` set (f # files)) d'
          = filter (\<lambda>(name, n). name \<notin> fst ` set (f # files)) d"
      by simp
    moreover have "\<forall>q. q \<notin> fst ` set (f # files) \<longrightarrow> map_of d' q = map_of d q"
      using k1 keep by (simp add: f)
    moreover have "\<forall>q. map_of d q = None \<longrightarrow> map_of d' q = None"
      using k2 gone by simp
    ultimately show "\<exists>d'.
        snd (snd (reclaim_loop max_bytes files tot' deleted' out' (Inr d1))) = Inr d'
        \<and> (\<forall>q. q \<notin> fst ` set (f # files) \<longrightarrow> map_of d' q = map_of d q)
        \<and> (\<forall>q. map_of d q = None \<longrightarrow> map_of d' q = None)
        \<and> filter (\<lambda>(name, n). name \<notin> fst ` set (f # files)) d'
            = filter (\<lambda>(name, n). name \<notin> fst ` set (f # files)) d"
      using d' by blast
  qed
  show ?case
  proof (cases "max_bytes < tot")
    case False
    then show ?thesis by (simp add: reclaim_loop_stop)
  next
    case True
    show ?thesis
    proof (cases r)
      case None
      then show ?thesis
        using True rm d1 step [of "tot - int sz" "deleted + 1" "out @ [Deleted p]"] by (simp add: f)
    next
      case (Some e)
      show ?thesis
      proof (cases "e = FileNotFoundError")
        case True
        then show ?thesis
          using \<open>max_bytes < tot\<close> rm d1 Some step [of tot deleted out] by (simp add: f)
      next
        case False
        then have "d1 = d"
          using os_remove_cases [OF rm] Some d1 by auto
        then show ?thesis
          using \<open>max_bytes < tot\<close> rm d1 Some False by (simp add: f)
      qed
    qed
  qed
qed

lemma reclaim_loop_count:
  "fst (reclaim_loop max_bytes files tot deleted out fs) + length (deleted_paths out)
   = deleted + length (deleted_paths (fst (snd (reclaim_loop max_bytes files tot deleted out fs))))"
proof (induction max_bytes files tot deleted out fs rule: reclaim_loop.induct)
  case (1 max_bytes tot deleted out fs)
  then show ?case by simp
next
  case (2 max_bytes p mt sz files tot deleted out fs)
  then show ?case
    by (auto split: prod.splits option.splits)
qed

lemma reclaim_loop_deleted_paths:
  "set (deleted_paths (fst (snd (reclaim_loop max_bytes files tot deleted out fs))))
   \<subseteq> set (deleted_paths out) \<union> fst ` set files"
proof (induction files arbitrary: tot deleted out fs)
  case Nil
  then show ?case by simp
next
  case (Cons f files)
  obtain p mt sz where f: "f = (p, mt, sz)" by (cases f)
  obtain r fs1 where rm: "os_remove p fs = (r, fs1)" by (cases "os_remove p fs")
  show ?case
  proof (cases "max_bytes < tot")
    case False
    then show ?thesis by (auto simp: reclaim_loop_stop)
  next
    case True
    show ?thesis
    proof (cases r)
      case None
      then show ?thesis
        using True rm Cons.IH [of "tot - int sz" "deleted + 1" "out @ [Deleted p]" fs1]
        by (auto simp: f)
    next
      case (Some e)
      then show ?thesis
        using True rm Cons.IH [of tot deleted out fs1]
        by (auto simp: f)
    qed
  qed
qed

lemma reclaim_loop_deleted_gone:
  assumes "snd (snd (reclaim_loop max_bytes files tot deleted out (Inr d))) = Inr d'"
    and "p \<in> set (deleted_paths (fst (snd (reclaim_loop max_bytes files tot deleted out (Inr d)))))"
  shows "p \<in> set (deleted_paths out) \<or> map_of d' p = None"
  using assms
proof (induction files arbitrary: tot deleted out d)
  case Nil
  then show ?case by simp
next
  case (Cons f files)
  obtain q mt sz where f: "f = (q, mt, sz)" by (cases f)
  obtain r fs1 where rm: "os_remove q (Inr d) = (r, fs1)" by (cases "os_remove q (Inr d)")
  then obtain d1 where d1: "fs1 = Inr d1"
    using os_remove_cases [OF rm] by auto
  show ?case
  proof (cases "max_bytes < tot")
    case False
    then show ?thesis using Cons.prems by (simp add: reclaim_loop_stop)
  next
    case True
    show ?thesis
    proof (cases r)
      case None
      then have d1_eq: "d1 = unlink q d"
        using os_remove_cases [OF rm] d1 by auto
      have run: "reclaim_loop max_bytes (f # files) tot deleted out (Inr d)
                 = reclaim_loop max_bytes files (tot - int sz) (deleted + 1) (out @ [Deleted q]) (Inr d1)"
        using True rm None d1 by (simp add: f)
      from Cons.IH [of "tot - int sz" "deleted + 1" "out @ [Deleted q]" d1] Cons.prems run
      have "p \<in> set (deleted_paths (out @ [Deleted q])) \<or> map_of d' p = None"
        by simp
      moreover have "map_of d' q = None"
      proof -
        from reclaim_loop_dir [of max_bytes files "tot - int sz" "deleted + 1" "out @ [Deleted q]" d1]
        obtain d2 where "snd (snd (reclaim_loop max_bytes files (tot - int sz) (deleted + 1)
                           (out @ [Deleted q]) (Inr d1))) = Inr d2"
          and "\<forall>x. map_of d1 x = None \<longrightarrow> map_of d2 x = None"
          by blast
        moreover have "d2 = d'"
          using calculation(1) Cons.prems(1) run by simp
        ultimately show ?thesis
          by (simp add: d1_eq map_of_unlink)
      qed
      ultimately show ?thesis by auto
    next
      case (Some e)
      show ?thesis
      proof (cases "e = FileNotFoundError")
        case True
        then have run: "reclaim_loop max_bytes (f # files) tot deleted out (Inr d)
                 = reclaim_loop max_bytes files tot deleted out (Inr d1)"
          using \<open>max_bytes < tot\<close> rm Some d1 by (simp add: f)
        from Cons.IH [of tot deleted out d1] Cons.prems run show ?thesis
          by simp
      next
        case False
        then show ?thesis
          using \<open>max_bytes < tot\<close> rm Some Cons.prems by (simp add: f)
      qed
    qed
  qed
qed

lemma collect_files_skip:
  "collect_files fs (filter (\<lambda>n. endswith n ''.mp4'') names) = collect_files fs names"
  by (induction names) (auto split: sum.splits)

lemma list_recording_files_segments_only:
  "list_recording_files (Inr (filter (\<lambda>(name, n). endswith name ''.mp4'') d))
   = list_recording_files (Inr d)"
proof -
  let ?d' = "filter (\<lambda>(name, n). endswith name ''.mp4'') d"
  have "collect_files (Inr ?d') (map fst ?d')
        = collect_files (Inr ?d') (filter (\<lambda>n. endswith n ''.mp4'') (map fst d))"
    by (simp add: map_fst_filter_names)
  also have "\<dots> = collect_files (Inr d) (filter (\<lambda>n. endswith n ''.mp4'') (map fst d))"
    by (rule collect_files_cong) (simp add: os_stat_filter_names)
  also have "\<dots> = collect_files (Inr d) (map fst d)"
    by (rule collect_files_skip)
  finally show ?thesis
    by (simp add: list_recording_files_def os_listdir_def)
qed

lemma filter_overwrite:
  "\<not> Q p
   \<Longrightarrow> filter (\<lambda>(name, n). Q name)
         (map (\<lambda>(name, y). if name = p then (name, x) else (name, y)) d)
       = filter (\<lambda>(name, n). Q name) d"
  by (induction d) (auto split: if_splits)

lemma filter_put_entry:
  "\<not> Q p \<Longrightarrow> filter (\<lambda>(name, n). Q name) (put_entry p x d) = filter (\<lambda>(name, n). Q name) d"
  by (simp add: put_entry_def filter_overwrite)

lemma filter_unlink:
  "\<not> Q p \<Longrightarrow> filter (\<lambda>(name, n). Q name) (unlink p d) = filter (\<lambda>(name, n). Q name) d"
  by (induction d) (auto simp: unlink_def)

lemma not_segment_names:
  "\<not> endswith ''status.json'' ''.mp4''" "\<not> endswith ''status.json.tmp'' ''.mp4''"
  by (simp_all add: endswith_def)

lemma same_segments:
  assumes "filter (\<lambda>(name, n). endswith name ''.mp4'') d'
           = filter (\<lambda>(name, n). endswith name ''.mp4'') d"
  shows "list_recording_files (Inr d') = list_recording_files (Inr d)"
  using assms by (metis list_recording_files_segments_only)

text \<open>Whatever happens in \<open>write_status\<close>, the segments are as they were.\<close>

lemma write_status_segments:
  "list_recording_files (snd (write_status dumps ans now fs status)) = list_recording_files fs"
proof (cases fs)
  case (Inl e)
  then show ?thesis by (simp add: write_status_def)
next
  case (Inr d)
  have tmp: "list_recording_files (Inr (put_entry ''status.json.tmp'' x d))
             = list_recording_files (Inr d)" for x
    by (rule same_segments) (simp add: filter_put_entry not_segment_names)
  have final: "list_recording_files
                 (Inr (put_entry ''status.json'' y
                        (unlink ''status.json.tmp'' (put_entry ''status.json.tmp'' x d))))
               = list_recording_files (Inr d)" for x y
    by (rule same_segments) (simp add: filter_put_entry filter_unlink not_segment_names)
  show ?thesis
    by (auto simp: Inr write_status_def Let_def os_replace_def tmp final
        split: option.splits prod.splits)
qed

lemma os_remove_other_error:
  "fst (os_remove p fs) = Some e \<Longrightarrow> e \<noteq> FileNotFoundError \<Longrightarrow> snd (os_remove p fs) = fs"
  by (auto simp: os_remove_def split: sum.splits option.splits if_splits)

lemma list_faulty:
  "list_recording_files (Inr faulty_directory) =
     Inr [(''old1.mp4'', 10, 700), (''old2.mp4'', 20, 700), (''old3.mp4'', 30, 700),
          (''old4.mp4'', 40, 700)]"
  by (simp add: list_recording_files_def os_listdir_def faulty_directory_def
      endswith_def os_stat_def media_def)

lemma run_faulty:
  "enforce_storage_cap (Inr faulty_directory) 1000
   = Inr (1, [Deleted ''old2.mp4'', DeleteFailed ''old3.mp4'' PermissionError],
          Inr (drop 2 faulty_directory))"
  unfolding enforce_storage_cap_def list_faulty
  by (simp add: total_size_def os_remove_def faulty_directory_def media_def unlink_def)

lemma nonsegment_filter:
  assumes "\<forall>q \<in> S. endswith q ''.mp4''"
  shows "filter (\<lambda>(name, n). \<not> endswith name ''.mp4'') (filter (\<lambda>(name, n). name \<notin> S) d)
         = filter (\<lambda>(name, n). \<not> endswith name ''.mp4'') d"
  using assms by (induction d) auto

lemma enforce_keeps_nonsegments:
  assumes run: "enforce_storage_cap (Inr d) max_bytes = Inr (k, out, fs')"
  shows "(\<forall>q \<in> set (deleted_paths out). endswith q ''.mp4'')
         \<and> (\<exists>d'. fs' = Inr d'
               \<and> (\<forall>name. \<not> endswith name ''.mp4'' \<longrightarrow> map_of d' name = map_of d name)
               \<and> filter (\<lambda>(name, n). \<not> endswith name ''.mp4'') d'
                   = filter (\<lambda>(name, n). \<not> endswith name ''.mp4'') d)"
proof -
  obtain files where listing: "list_recording_files (Inr d) = Inr files"
    and loop: "reclaim_loop max_bytes files (total_size files) 0 [] (Inr d) = (k, out, fs')"
    using run by (auto simp: enforce_storage_cap_def split: sum.splits)
  have seg: "\<forall>q \<in> fst ` set files. endswith q ''.mp4''"
    using list_recording_files_entry [OF listing] by auto
  have "set (deleted_paths out) \<subseteq> fst ` set files"
    using reclaim_loop_deleted_paths [of max_bytes files "total_size files" 0 "[]" "Inr d"] loop
    by simp
  with seg have del: "\<forall>q \<in> set (deleted_paths out). endswith q ''.mp4''"
    by blast
  from reclaim_loop_dir [of max_bytes files "total_size files" 0 "[]" d] loop
  obtain d' where d': "fs' = Inr d'"
    and keep: "\<forall>q. q \<notin> fst ` set files \<longrightarrow> map_of d' q = map_of d q"
    and filt: "filter (\<lambda>(name, n). name \<notin> fst ` set files) d'
               = filter (\<lambda>(name, n). name \<notin> fst ` set files) d"
    by auto
  have "\<forall>name. \<not> endswith name ''.mp4'' \<longrightarrow> map_of d' name = map_of d name"
    using keep seg by blast
  moreover have "filter (\<lambda>(name, n). \<not> endswith name ''.mp4'') d'
                 = filter (\<lambda>(name, n). \<not> endswith name ''.mp4'') d"
    using nonsegment_filter [OF seg, of d'] nonsegment_filter [OF seg, of d] filt by simp
  ultimately show ?thesis
    using del d' by blast
qed

lemma list_mixed:
  "list_recording_files (Inr mixed_directory)
   = Inr [(''seg1.mp4'', 60, 700), (''seg2.mp4'', 120, 700)]"
  by (simp add: list_recording_files_def os_listdir_def mixed_directory_def
      endswith_def os_stat_def media_def)

lemma run_mixed:
  "enforce_storage_cap (Inr mixed_directory) 1000
   = Inr (1, [Deleted ''seg1.mp4''],
          Inr [mixed_directory ! 0, mixed_directory ! 2, mixed_directory ! 3])"
  unfolding enforce_storage_cap_def list_mixed
  by (simp add: total_size_def os_remove_def mixed_directory_def media_def unlink_def)

lemma reclaim_loop_filter:
  "\<exists>R. snd (snd (reclaim_loop max_bytes files tot deleted out (Inr d)))
        = Inr (filter (\<lambda>(name, n). name \<notin> R) d)"
proof (induction files arbitrary: tot deleted out d)
  case Nil
  have "filter (\<lambda>(name, n). name \<notin> {}) d = d" by simp
  then show ?case by (metis reclaim_loop.simps(1) snd_conv)
next
  case (Cons f files)
  obtain p mt sz where f: "f = (p, mt, sz)" by (cases f)
  obtain r fs1 where rm: "os_remove p (Inr d) = (r, fs1)" by (cases "os_remove p (Inr d)")
  have keep: "\<exists>R. Inr d = Inr (filter (\<lambda>(name, n). name \<notin> R) d)"
    by (rule exI [of _ "{}"]) simp
  have step: "\<exists>R. snd (snd (reclaim_loop max_bytes files tot' deleted' out' fs1))
                  = Inr (filter (\<lambda>(name, n). name \<notin> R) d)" for tot' deleted' out'
  proof -
    consider "fs1 = Inr d" | "fs1 = Inr (unlink p d)"
      using os_remove_cases [OF rm] by auto
    then show ?thesis
    proof cases
      case 1
      then show ?thesis using Cons.IH [of tot' deleted' out' d] by simp
    next
      case 2
      from Cons.IH [of tot' deleted' out' "unlink p d"]
      obtain R where "snd (snd (reclaim_loop max_bytes files tot' deleted' out' (Inr (unlink p d))))
                      = Inr (filter (\<lambda>(name, n). name \<notin> R) (unlink p d))"
        by blast
      moreover have "filter (\<lambda>(name, n). name \<notin> R) (unlink p d)
                     = filter (\<lambda>(name, n). name \<notin> insert p R) d"
        by (auto simp: unlink_def intro: filter_cong)
      ultimately have "snd (snd (reclaim_loop max_bytes files tot' deleted' out' fs1))
                       = Inr (filter (\<lambda>(name, n). name \<notin> insert p R) d)"
        using 2 by simp
      then show ?thesis
        by (rule exI [of _ "insert p R"])
    qed
  qed
  show ?case
  proof (cases "max_bytes < tot")
    case False
    then show ?thesis using keep by (simp add: reclaim_loop_stop)
  next
    case True
    show ?thesis
    proof (cases r)
      case None
      then show ?thesis
        using True rm step [of "tot - int sz" "deleted + 1" "out @ [Deleted p]"] by (simp add: f)
    next
      case (Some e)
      show ?thesis
      proof (cases "e = FileNotFoundError")
        case True
        then show ?thesis
          using \<open>max_bytes < tot\<close> rm Some step [of tot deleted out] by (simp add: f)
      next
        case False
        then have "fs1 = Inr d"
          using os_remove_cases [OF rm] Some by auto
        then show ?thesis
          using \<open>max_bytes < tot\<close> rm Some False keep by (simp add: f)
      qed
    qed
  qed
qed


section \<open>Lemmas on the supervisor loop\<close>

lemma published_append [simp]: "published (xs @ ys) = published xs @ published ys"
  by (induction xs rule: published.induct) auto

lemma map_of_overwrite_other:
  "q \<noteq> p
   \<Longrightarrow> map_of (map (\<lambda>(name, x). if name = p then (name, n) else (name, x)) d) q = map_of d q"
  by (induction d) auto

lemma map_of_overwrite_same:
  "p \<in> fst ` set d
   \<Longrightarrow> map_of (map (\<lambda>(name, x). if name = p then (name, n) else (name, x)) d) p = Some n"
  by (induction d) auto

lemma map_of_put_entry:
  "map_of (put_entry p n d) q = (if q = p then Some n else map_of d q)"
proof (cases "p \<in> fst ` set d")
  case True
  then show ?thesis
    by (simp add: put_entry_def map_of_overwrite_other map_of_overwrite_same)
next
  case False
  then have "map_of d p = None"
    by (simp add: map_of_eq_None_iff)
  with False show ?thesis
    by (auto simp: put_entry_def map_add_def split: option.splits)
qed

lemma write_status_ok:
  "\<exists>d'. write_status dumps working_io now (Inr d) status = (None, Inr d')
        \<and> map_of d' ''status.json''
            = Some \<lparr>stat_res = Inr (now, length (dumps status)), unlink_res = None,
                     doc = Some status\<rparr>
        \<and> map_of d' ''status.json.tmp'' = None"
  by (simp add: write_status_def working_io_def Let_def os_replace_def map_of_put_entry
      map_of_unlink)

lemma write_status_fails: "write_status dumps ans now (Inl e) status = (Some e, Inl e)"
  by (simp add: write_status_def)

text \<open>A write that succeeded has put the record into \<^verbatim>\<open>status.json\<close>.\<close>

lemma write_status_published:
  assumes "write_status dumps ans now fs status = (None, fs2)"
  shows "status_file fs2 = Some status"
  using assms
  by (auto simp: write_status_def Let_def os_replace_def status_file_def map_of_put_entry
      split: sum.splits option.splits prod.splits)

text \<open>A write that failed has left \<^verbatim>\<open>status.json\<close> as it was.\<close>

lemma write_status_atomic:
  assumes "fst (write_status dumps ans now fs status) = Some e"
  shows "status_file (snd (write_status dumps ans now fs status)) = status_file fs"
  using assms
  by (auto simp: write_status_def Let_def os_replace_def status_file_def map_of_put_entry
      split: sum.splits option.splits prod.splits)

lemma tick_exited:
  assumes "child_exit w = Some c"
  shows "tick dumps s w =
     (let t = clock w + CHECK_EVERY_SECONDS;
          status = exit_status (w\<lparr>clock := t\<rparr>)
      in case write_status dumps (status_io w) t (disk w) status of
           (Some e, fs1) \<Rightarrow> (Some e, s, w\<lparr>clock := t, disk := fs1\<rparr>)
         | (None, fs1) \<Rightarrow>
             (case popen_res w of
                Inl e \<Rightarrow>
                  (Some e, s,
                   w\<lparr>clock := t + RESTART_BACKOFF_SECONDS, disk := fs1,
                      trace := trace w @ [(t, Published status)]\<rparr>)
              | Inr pid \<Rightarrow>
                  (None, \<lparr>proc_pid = pid, last_ok_time = t + RESTART_BACKOFF_SECONDS\<rparr>,
                   w\<lparr>clock := t + RESTART_BACKOFF_SECONDS, disk := fs1,
                      child_exit := None, child_stderr_tail := [],
                      trace := trace w @ [(t, Published status),
                                          (t + RESTART_BACKOFF_SECONDS, Spawned pid)]\<rparr>)))"
  using assms
  by (cases s)
     (simp add: tick_def Let_def time_sleep_def emit_def
        split: sum.splits prod.splits option.splits)

lemma tick_alive:
  assumes "child_exit w = None"
  shows "tick dumps s w =
     (let t = clock w + CHECK_EVERY_SECONDS;
          w1 = w\<lparr>clock := t\<rparr>
      in case newest_recording_mtime (disk w) of
           Inl e \<Rightarrow> (Some e, s, w1)
         | Inr newest \<Rightarrow>
             (let h = health_check newest t (last_ok_time s);
                  s1 = s\<lparr>last_ok_time := snd (snd h)\<rparr>
              in case enforce_storage_cap (disk w) (bytes_from_gb (real_of_int MAX_STORAGE_GB)) of
                   Inl e \<Rightarrow> (Some e, s1, w1)
                 | Inr (deleted, out, fs1) \<Rightarrow>
                     (let w2 = w1\<lparr>disk := fs1, trace := trace w @ map (Pair t) out\<rparr>
                      in case folder_size_bytes fs1 of
                           Inl e \<Rightarrow> (Some e, s1, w2)
                         | Inr folder_bytes \<Rightarrow>
                             (let status = tick_status s1 w2 (fst h) (fst (snd h)) folder_bytes
                                             newest t (snd (snd h)) (fst (resource_usage w))
                                             (snd (resource_usage w)) deleted
                              in case write_status dumps (status_io w) t fs1 status of
                                   (Some e, fs2) \<Rightarrow> (Some e, s1, w2\<lparr>disk := fs2\<rparr>)
                                 | (None, fs2) \<Rightarrow>
                                     (None, s1,
                                      w2\<lparr>disk := fs2,
                                         trace := trace w @ map (Pair t) out
                                                  @ [(t, Published status)]\<rparr>)))))"
  using assms
  by (simp add: tick_def Let_def time_sleep_def emit_def resource_usage_def
      split: sum.splits prod.splits option.splits)

lemma last_published_snoc:
  "published (map snd (trace w)) = sts @ [st] \<Longrightarrow> last_published w = Some st"
  by (cases sts) (simp_all add: last_published_def)

lemma published_reclaim_log:
  "published (fst (snd (reclaim_loop max_bytes files tot deleted out fs))) = published out"
proof (induction files arbitrary: tot deleted out fs)
  case Nil
  then show ?case by simp
next
  case (Cons f files)
  obtain p mt sz where f: "f = (p, mt, sz)" by (cases f)
  obtain r fs1 where rm: "os_remove p fs = (r, fs1)" by (cases "os_remove p fs")
  show ?case
  proof (cases "max_bytes < tot")
    case False
    then show ?thesis by (simp add: reclaim_loop_stop)
  next
    case True
    show ?thesis
    proof (cases r)
      case None
      then show ?thesis
        using True rm Cons.IH [of "tot - int sz" "deleted + 1" "out @ [Deleted p]" fs1]
        by (simp add: f)
    next
      case (Some e)
      then show ?thesis
        using True rm Cons.IH [of tot deleted out fs1]
        by (simp add: f)
    qed
  qed
qed

lemma published_enforce_log:
  "enforce_storage_cap fs max_bytes = Inr (k, out, fs') \<Longrightarrow> published out = []"
proof -
  assume run: "enforce_storage_cap fs max_bytes = Inr (k, out, fs')"
  then obtain files where "reclaim_loop max_bytes files (total_size files) 0 [] fs = (k, out, fs')"
    by (auto simp: enforce_storage_cap_def split: sum.splits)
  with published_reclaim_log [of max_bytes files "total_size files" 0 "[]" fs]
  show "published out = []" by simp
qed

lemma map_snd_Pair: "map (snd \<circ> Pair t) evs = evs"
  by (induction evs) auto

lemma tick_status_keys:
  "map fst (tick_status s w healthy reason folder_bytes newest now last_ok cpu mem_mb deleted)
   = [''recording'', ''reason'', ''timestamp'', ''rtsp_transport'', ''segment_seconds'',
      ''max_storage_gb'', ''output_dir'', ''folder_size_bytes'', ''newest_segment_mtime'',
      ''seconds_since_last_ok'', ''ffmpeg_pid'', ''ffmpeg_cpu_percent'', ''ffmpeg_mem_mb'',
      ''deleted_files_this_check'']"
  by (simp add: tick_status_def)

lemma tick_status_lookup:
  "map_of (tick_status s w healthy reason folder_bytes newest now last_ok cpu mem_mb deleted)
     ''recording'' = Some (JBool healthy)"
  "map_of (tick_status s w healthy reason folder_bytes newest now last_ok cpu mem_mb deleted)
     ''reason'' = Some (JStr reason)"
  "map_of (tick_status s w healthy reason folder_bytes newest now last_ok cpu mem_mb deleted)
     ''folder_size_bytes'' = Some (JInt folder_bytes)"
  "map_of (tick_status s w healthy reason folder_bytes newest now last_ok cpu mem_mb deleted)
     ''newest_segment_mtime'' = Some (json_opt newest)"
  "map_of (tick_status s w healthy reason folder_bytes newest now last_ok cpu mem_mb deleted)
     ''seconds_since_last_ok'' = Some (JFloat (py_round1 (now - last_ok)))"
  "map_of (tick_status s w healthy reason folder_bytes newest now last_ok cpu mem_mb deleted)
     ''ffmpeg_pid'' = Some (JInt (int (proc_pid s)))"
  "map_of (tick_status s w healthy reason folder_bytes newest now last_ok cpu mem_mb deleted)
     ''ffmpeg_cpu_percent'' = Some (json_opt cpu)"
  "map_of (tick_status s w healthy reason folder_bytes newest now last_ok cpu mem_mb deleted)
     ''ffmpeg_mem_mb'' = Some (json_opt mem_mb)"
  "map_of (tick_status s w healthy reason folder_bytes newest now last_ok cpu mem_mb deleted)
     ''deleted_files_this_check'' = Some (JInt (int deleted))"
  by (simp_all add: tick_status_def)

lemma exit_status_lookup:
  "map fst (exit_status w)
   = [''recording'', ''reason'', ''timestamp'', ''ffmpeg_pid'', ''ffmpeg_stderr_tail'']"
  "map_of (exit_status w) ''recording'' = Some (JBool False)"
  "map_of (exit_status w) ''reason'' = Some (JStr ''ffmpeg_exited'')"
  "map_of (exit_status w) ''ffmpeg_pid'' = Some JNull"
  "map_of (exit_status w) ''folder_size_bytes'' = None"
  "map_of (exit_status w) ''deleted_files_this_check'' = None"
  by (simp_all add: exit_status_def)

text \<open>What a completed iteration with a live child did, step by step.\<close>

lemma tick_alive_success:
  assumes alive: "child_exit w = None" and ok: "tick dumps s w = (None, s', w')"
  shows "\<exists>newest deleted out fs1 folder_bytes fs2 st.
      newest_recording_mtime (disk w) = Inr newest
    \<and> enforce_storage_cap (disk w) (bytes_from_gb (real_of_int MAX_STORAGE_GB))
        = Inr (deleted, out, fs1)
    \<and> folder_size_bytes fs1 = Inr folder_bytes
    \<and> st = tick_status (s\<lparr>last_ok_time := snd (snd (health_check newest
                 (clock w + CHECK_EVERY_SECONDS) (last_ok_time s)))\<rparr>)
              (w\<lparr>clock := clock w + CHECK_EVERY_SECONDS, disk := fs1,
                 trace := trace w @ map (Pair (clock w + CHECK_EVERY_SECONDS)) out\<rparr>)
              (fst (health_check newest (clock w + CHECK_EVERY_SECONDS) (last_ok_time s)))
              (fst (snd (health_check newest (clock w + CHECK_EVERY_SECONDS) (last_ok_time s))))
              folder_bytes newest (clock w + CHECK_EVERY_SECONDS)
              (snd (snd (health_check newest (clock w + CHECK_EVERY_SECONDS) (last_ok_time s))))
              (fst (resource_usage w)) (snd (resource_usage w)) deleted
    \<and> write_status dumps (status_io w) (clock w + CHECK_EVERY_SECONDS) fs1 st = (None, fs2)
    \<and> s' = s\<lparr>last_ok_time := snd (snd (health_check newest
                 (clock w + CHECK_EVERY_SECONDS) (last_ok_time s)))\<rparr>
    \<and> w' = w\<lparr>clock := clock w + CHECK_EVERY_SECONDS, disk := fs2,
              trace := trace w @ map (Pair (clock w + CHECK_EVERY_SECONDS)) out
                       @ [(clock w + CHECK_EVERY_SECONDS, Published st)]\<rparr>"
  using ok unfolding tick_alive [OF alive] Let_def
  by (auto split: sum.splits prod.splits option.splits)

lemma empty_inventory:
  "list_recording_files (Inl FileNotFoundError) = Inr []"
  "list_recording_files (Inr []) = Inr []"
  by (simp_all add: list_recording_files_def os_listdir_def)

lemma tick_absent_directory:
  assumes "child_exit w = None" and "disk w = Inl FileNotFoundError"
  shows "tick dumps s w = (Some FileNotFoundError, s, w\<lparr>clock := clock w + CHECK_EVERY_SECONDS\<rparr>)"
proof -
  have "w\<lparr>clock := t, disk := Inl FileNotFoundError\<rparr> = w\<lparr>clock := t\<rparr>" for t
    using assms(2) by (cases w) simp
  then show ?thesis
    using assms(2) unfolding tick_alive [OF assms(1)]
    by (simp add: newest_recording_mtime_def enforce_storage_cap_def folder_size_bytes_def
        empty_inventory health_check_def write_status_fails total_size_def Let_def)
qed

text \<open>
  An iteration with a live child completes whenever the directory can be listed and the
  status file written.
\<close>

lemma tick_alive_completes:
  assumes alive: "child_exit w = None" and disk: "disk w = Inr d"
    and listing: "list_recording_files (Inr d) = Inr files"
    and io: "status_io w = working_io"
  shows "\<exists>s' w'. tick dumps s w = (None, s', w')"
proof -
  let ?cap = "bytes_from_gb (real_of_int MAX_STORAGE_GB)"
  obtain R where R: "snd (snd (reclaim_loop ?cap files (total_size files) 0 [] (Inr d)))
                     = Inr (filter (\<lambda>(name, n). name \<notin> R) d)"
    using reclaim_loop_filter by blast
  obtain k out where run: "enforce_storage_cap (Inr d) ?cap
                           = Inr (k, out, Inr (filter (\<lambda>(name, n). name \<notin> R) d))"
    using R by (cases "reclaim_loop ?cap files (total_size files) 0 [] (Inr d)")
      (auto simp: enforce_storage_cap_def listing)
  have after: "list_recording_files (Inr (filter (\<lambda>(name, n). name \<notin> R) d))
               = Inr (filter (\<lambda>(p, mt, sz). p \<notin> R) files)"
    using listing by (rule list_recording_files_filter)
  obtain newest where nm: "newest_recording_mtime (Inr d) = Inr newest"
    by (simp add: newest_recording_mtime_def listing)
  obtain fb where fb: "folder_size_bytes (Inr (filter (\<lambda>(name, n). name \<notin> R) d)) = Inr fb"
    by (simp add: folder_size_bytes_def after)
  have wr: "\<exists>d'. write_status dumps working_io t (Inr (filter (\<lambda>(name, n). name \<notin> R) d)) st
                 = (None, Inr d')" for t st
    using write_status_ok [of dumps t "filter (\<lambda>(name, n). name \<notin> R) d" st] by auto
  obtain d' where "write_status dumps working_io (clock w + CHECK_EVERY_SECONDS)
      (Inr (filter (\<lambda>(name, n). name \<notin> R) d))
      (tick_status
         (s\<lparr>last_ok_time := snd (snd (health_check newest (clock w + CHECK_EVERY_SECONDS)
                                          (last_ok_time s)))\<rparr>)
         (w\<lparr>clock := clock w + CHECK_EVERY_SECONDS,
            disk := Inr (filter (\<lambda>(name, n). name \<notin> R) d),
            trace := trace w @ map (Pair (clock w + CHECK_EVERY_SECONDS)) out\<rparr>)
         (fst (health_check newest (clock w + CHECK_EVERY_SECONDS) (last_ok_time s)))
         (fst (snd (health_check newest (clock w + CHECK_EVERY_SECONDS) (last_ok_time s))))
         fb newest (clock w + CHECK_EVERY_SECONDS)
         (snd (snd (health_check newest (clock w + CHECK_EVERY_SECONDS) (last_ok_time s))))
         (fst (resource_usage w)) (snd (resource_usage w)) k) = (None, Inr d')"
    using wr by blast
  then show ?thesis
    unfolding tick_alive [OF alive] Let_def
    by (simp add: disk nm run fb io)
qed

text \<open>The write succeeds exactly in a directory that exists and answers without error.\<close>

lemma write_status_succeeds_iff:
  "fst (write_status dumps ans now fs status) = None
   \<longleftrightarrow> (\<exists>d. fs = Inr d) \<and> open_raises ans = None \<and> dump_raises ans = None
       \<and> replace_raises ans = None"
  by (auto simp: write_status_def Let_def os_replace_def map_of_put_entry
      split: sum.splits option.splits prod.splits)

lemma write_status_open_fails:
  assumes "open_raises ans = Some e"
  shows "write_status dumps ans now (Inr d) status = (Some e, Inr d)"
  using assms by (simp add: write_status_def)

text \<open>
  An iteration with a live child over an empty or absent directory: nothing is removed,
  the health check fails, and the iteration ends as the write of the status file ends.
\<close>

lemma tick_alive_empty:
  assumes alive: "child_exit w = None"
    and empty: "disk w = Inr [] \<or> disk w = Inl FileNotFoundError"
  shows "tick dumps s w =
     (let t = clock w + CHECK_EVERY_SECONDS;
          st = tick_status s (w\<lparr>clock := t\<rparr>) False ''no_new_segments'' 0 None t (last_ok_time s)
                 (fst (resource_usage w)) (snd (resource_usage w)) 0;
          r = write_status dumps (status_io w) t (disk w) st
      in (fst r, s,
          w\<lparr>clock := t, disk := snd r,
             trace := trace w @ (if fst r = None then [(t, Published st)] else [])\<rparr>))"
proof -
  let ?t = "clock w + CHECK_EVERY_SECONDS"
  have same: "w\<lparr>clock := ?t, disk := disk w, trace := trace w\<rparr> = w\<lparr>clock := ?t\<rparr>"
    by (cases w) simp
  have st: "tick_status s (w\<lparr>clock := ?t, disk := disk w, trace := trace w\<rparr>) h r fb nm n lo c m k
            = tick_status s (w\<lparr>clock := ?t\<rparr>) h r fb nm n lo c m k" for h r fb nm n lo c m k
    by (simp add: tick_status_def)
  have s: "s\<lparr>last_ok_time := last_ok_time s\<rparr> = s"
    by simp
  have steps: "newest_recording_mtime (disk w) = Inr None"
    "enforce_storage_cap (disk w) cap = Inr (0, [], disk w)"
    "folder_size_bytes (disk w) = Inr 0" for cap
    using empty
    by (auto simp: newest_recording_mtime_def enforce_storage_cap_def folder_size_bytes_def
        empty_inventory total_size_def)
  show ?thesis
    unfolding tick_alive [OF alive] Let_def
    by (cases "write_status dumps (status_io w) ?t (disk w)
                 (tick_status s (w\<lparr>clock := ?t\<rparr>) False ''no_new_segments'' 0 None ?t
                    (last_ok_time s) (fst (resource_usage w)) (snd (resource_usage w)) 0)")
       (auto simp: steps health_check_def st s split: option.splits)
qed

lemma newest_single:
  "newest_recording_mtime (Inr [(''seg1.mp4'', media mt sz)]) = Inr (Some mt)"
  by (simp add: newest_recording_mtime_def list_recording_files_def os_listdir_def endswith_simps
      os_stat_def media_def)

lemma list_single:
  "list_recording_files (Inr [(''seg1.mp4'', media mt sz)]) = Inr [(''seg1.mp4'', mt, sz)]"
  by (simp add: list_recording_files_def os_listdir_def endswith_simps os_stat_def media_def)

lemma round_half_even_bounds:
  "x - 1 / 2 \<le> of_int (round_half_even x) \<and> of_int (round_half_even x) \<le> x + 1 / 2"
proof -
  define f where "f = \<lfloor>x\<rfloor>"
  have lo: "of_int f \<le> x" and hi: "x < of_int f + 1"
    unfolding f_def by linarith+
  have "round_half_even x
        = (if x - of_int f < 1 / 2 then f
           else if 1 / 2 < x - of_int f then f + 1
           else if even f then f else f + 1)"
    by (simp add: round_half_even_def Let_def f_def)
  then show ?thesis
    using lo hi by (auto split: if_splits)
qed

lemma py_round1_gap:
  assumes "x + 10 \<le> y"
  shows "py_round1 x < py_round1 y"
proof -
  have "of_int (round_half_even (x * 10)) \<le> x * 10 + 1 / 2"
    using round_half_even_bounds [of "x * 10"] by simp
  moreover have "y * 10 - 1 / 2 \<le> of_int (round_half_even (y * 10))"
    using round_half_even_bounds [of "y * 10"] by simp
  ultimately have "(of_int (round_half_even (x * 10)) :: real) < of_int (round_half_even (y * 10))"
    using assms by linarith
  then show ?thesis
    by (simp add: py_round1_def divide_strict_right_mono)
qed

lemma tick_exited_report:
  assumes dead: "child_exit w = Some c" and ok: "tick dumps s w = (None, s', w')"
  shows "last_published w' = Some (exit_status (w\<lparr>clock := clock w + CHECK_EVERY_SECONDS\<rparr>))"
proof -
  let ?t = "clock w + CHECK_EVERY_SECONDS"
  let ?st = "exit_status (w\<lparr>clock := ?t\<rparr>)"
  from ok obtain pid where
    "trace w' = trace w @ [(?t, Published ?st), (?t + RESTART_BACKOFF_SECONDS, Spawned pid)]"
    unfolding tick_exited [OF dead] Let_def
    by (auto split: sum.splits option.splits prod.splits)
  then have "published (map snd (trace w')) = published (map snd (trace w)) @ [?st]"
    by simp
  then show ?thesis
    by (rule last_published_snoc)
qed

lemma tick_unhealthy_report:
  assumes ok: "tick dumps s w = (None, s', w')"
    and pub: "last_published w' = Some st"
    and reason: "map_of st ''reason'' = Some (JStr ''no_new_segments'')"
  shows "child_exit w = None \<and> last_ok_time s' = last_ok_time s
         \<and> clock w' = clock w + CHECK_EVERY_SECONDS
         \<and> map_of st ''seconds_since_last_ok''
             = Some (JFloat (py_round1 (clock w + CHECK_EVERY_SECONDS - last_ok_time s)))"
proof (cases "child_exit w")
  case (Some c)
  from tick_exited_report [OF Some ok] pub reason show ?thesis
    by (simp add: exit_status_lookup)
next
  case None
  let ?t = "clock w + CHECK_EVERY_SECONDS"
  from tick_alive_success [OF None ok]
  obtain nm deleted out fs1 folder_bytes fs2 st' where
    run: "enforce_storage_cap (disk w) (bytes_from_gb (real_of_int MAX_STORAGE_GB))
              = Inr (deleted, out, fs1)"
    and st': "st' = tick_status (s\<lparr>last_ok_time := snd (snd (health_check nm ?t (last_ok_time s)))\<rparr>)
              (w\<lparr>clock := ?t, disk := fs1, trace := trace w @ map (Pair ?t) out\<rparr>)
              (fst (health_check nm ?t (last_ok_time s)))
              (fst (snd (health_check nm ?t (last_ok_time s))))
              folder_bytes nm ?t (snd (snd (health_check nm ?t (last_ok_time s))))
              (fst (resource_usage w)) (snd (resource_usage w)) deleted"
    and s': "s' = s\<lparr>last_ok_time := snd (snd (health_check nm ?t (last_ok_time s)))\<rparr>"
    and w': "w' = w\<lparr>clock := ?t, disk := fs2,
              trace := trace w @ map (Pair ?t) out @ [(?t, Published st')]\<rparr>"
    by blast
  have "published (map snd (trace w')) = published (map snd (trace w)) @ [st']"
    using published_enforce_log [OF run] by (simp add: w' map_snd_Pair)
  then have "last_published w' = Some st'"
    by (rule last_published_snoc)
  with pub have eq: "st = st'" by simp
  have "fst (snd (health_check nm ?t (last_ok_time s))) = ''no_new_segments''"
    using reason by (simp add: eq st' tick_status_lookup)
  then have keep: "snd (snd (health_check nm ?t (last_ok_time s))) = last_ok_time s"
    by (auto simp: health_check_def split: if_splits)
  show ?thesis
    using None keep by (simp add: s' w' eq st' tick_status_lookup)
qed

text \<open>
  An iteration with a live child over a directory within the cap: it completes, removes
  nothing, and leaves the same segments behind.
\<close>

lemma tick_alive_under_cap:
  assumes alive: "child_exit w = None" and disk: "disk w = Inr d"
    and listing: "list_recording_files (Inr d) = Inr files"
    and small: "total_size files \<le> bytes_from_gb (real_of_int MAX_STORAGE_GB)"
    and io: "status_io w = working_io"
  shows "\<exists>s' w' st d'. tick dumps s w = (None, s', w')
          \<and> last_published w' = Some st
          \<and> new_events w w' = [(clock w + CHECK_EVERY_SECONDS, Published st)]
          \<and> map_of st ''reason''
              = Some (JStr (fst (snd (health_check (if files = [] then None
                    else Some (fst (snd (last files))))
                  (clock w + CHECK_EVERY_SECONDS) (last_ok_time s)))))
          \<and> map fst st = map fst (tick_status s w False [] 0 None 0 0 None None 0)
          \<and> child_exit w' = None \<and> clock w' = clock w + CHECK_EVERY_SECONDS
          \<and> disk w' = Inr d' \<and> list_recording_files (Inr d') = Inr files
          \<and> status_io w' = working_io"
proof -
  let ?t = "clock w + CHECK_EVERY_SECONDS"
  obtain s' w' where ok: "tick dumps s w = (None, s', w')"
    using tick_alive_completes [OF alive disk listing io] by blast
  have nm: "newest_recording_mtime (disk w)
            = Inr (if files = [] then None else Some (fst (snd (last files))))"
    by (simp add: newest_recording_mtime_def disk listing)
  have run: "enforce_storage_cap (disk w) (bytes_from_gb (real_of_int MAX_STORAGE_GB))
             = Inr (0, [], Inr d)"
    using small by (simp add: enforce_storage_cap_def disk listing reclaim_loop_stop)
  from tick_alive_success [OF alive ok]
  obtain nm' deleted out fs1 folder_bytes fs2 st where
    e1: "newest_recording_mtime (disk w) = Inr nm'"
    and e2: "enforce_storage_cap (disk w) (bytes_from_gb (real_of_int MAX_STORAGE_GB))
             = Inr (deleted, out, fs1)"
    and st_def: "st = tick_status (s\<lparr>last_ok_time := snd (snd (health_check nm' ?t (last_ok_time s)))\<rparr>)
              (w\<lparr>clock := ?t, disk := fs1, trace := trace w @ map (Pair ?t) out\<rparr>)
              (fst (health_check nm' ?t (last_ok_time s)))
              (fst (snd (health_check nm' ?t (last_ok_time s))))
              folder_bytes nm' ?t (snd (snd (health_check nm' ?t (last_ok_time s))))
              (fst (resource_usage w)) (snd (resource_usage w)) deleted"
    and wr0: "write_status dumps (status_io w) ?t fs1 st = (None, fs2)"
    and w'0: "w' = w\<lparr>clock := ?t, disk := fs2,
              trace := trace w @ map (Pair ?t) out @ [(?t, Published st)]\<rparr>"
    by blast
  have nm': "nm' = (if files = [] then None else Some (fst (snd (last files))))"
    using e1 nm by simp
  have pass: "deleted = 0" "out = []" "fs1 = Inr d"
    using e2 run by simp_all
  have st: "map_of st ''reason''
          = Some (JStr (fst (snd (health_check (if files = [] then None
                else Some (fst (snd (last files)))) ?t (last_ok_time s)))))"
      "map fst st = map fst (tick_status s w False [] 0 None 0 0 None None 0)"
    by (simp_all add: st_def tick_status_lookup tick_status_keys nm')
  have wr: "write_status dumps working_io ?t (Inr d) st = (None, fs2)"
    using wr0 pass io by simp
  have w': "w' = w\<lparr>clock := ?t, disk := fs2, trace := trace w @ [(?t, Published st)]\<rparr>"
    using w'0 pass by simp
  obtain d' where d': "fs2 = Inr d'"
    using wr write_status_ok [of dumps ?t d st] by auto
  have "list_recording_files (Inr d') = Inr files"
    using write_status_segments [of dumps working_io ?t "Inr d" st] wr listing d' by simp
  moreover have "last_published w' = Some st"
    by (rule last_published_snoc [of _ "published (map snd (trace w))"]) (simp add: w')
  moreover have "new_events w w' = [(?t, Published st)]"
    by (simp add: new_events_def w')
  ultimately show ?thesis
    using ok st alive d' io by (auto simp: w')
qed

lemma cap_value: "bytes_from_gb (real_of_int MAX_STORAGE_GB) = 10737418240"
  by (simp add: bytes_from_gb_def py_int_def MAX_STORAGE_GB_def)

lemma list_six_total:
  "total_size [(''seg1.mp4'', 60, two_gb), (''seg2.mp4'', 120, two_gb), (''seg3.mp4'', 180, two_gb),
          (''seg4.mp4'', 240, two_gb), (''seg5.mp4'', 300, two_gb), (''seg6.mp4'', 360, two_gb)]
   = 12884901888"
  by (simp add: total_size_def two_gb_def)

lemma crashed_world_simps:
  "child_exit crashed_world = Some 1" "disk crashed_world = Inr scenario_six"
  "clock crashed_world = 1000" "popen_res crashed_world = Inr 4242" "trace crashed_world = []"
  "child_stderr_tail crashed_world = ''Connection refused''"
  "status_io crashed_world = working_io"
  by (simp_all add: crashed_world_def idle_world_def)

lemma sample_io:
  "status_io idle_world = working_io" "status_io stale_world = working_io"
  "status_io boundary_world = working_io" "status_io full_world = working_io"
  by (simp_all add: idle_world_def stale_world_def boundary_world_def full_world_def)

text \<open>Every outcome of an iteration that found the child dead.\<close>

lemma tick_exited_outcomes:
  assumes dead: "child_exit w = Some c" and run: "tick dumps s w = (err, s', w')"
  shows "disk w' = snd (write_status dumps (status_io w) (clock w + CHECK_EVERY_SECONDS) (disk w)
                     (exit_status (w\<lparr>clock := clock w + CHECK_EVERY_SECONDS\<rparr>)))
         \<and> ((new_events w w' = []
              \<and> fst (write_status dumps (status_io w) (clock w + CHECK_EVERY_SECONDS) (disk w)
                       (exit_status (w\<lparr>clock := clock w + CHECK_EVERY_SECONDS\<rparr>))) = err
              \<and> err \<noteq> None \<and> s' = s)
            \<or> (\<exists>rest. new_events w w'
                  = (clock w + CHECK_EVERY_SECONDS,
                     Published (exit_status (w\<lparr>clock := clock w + CHECK_EVERY_SECONDS\<rparr>))) # rest
                 \<and> published (map snd rest) = [] \<and> deleted_paths (map snd rest) = []
                 \<and> fst (write_status dumps (status_io w) (clock w + CHECK_EVERY_SECONDS) (disk w)
                          (exit_status (w\<lparr>clock := clock w + CHECK_EVERY_SECONDS\<rparr>))) = None))"
  using run unfolding tick_exited [OF dead] Let_def
  by (auto simp: new_events_def split: sum.splits option.splits prod.splits)

text \<open>Every outcome of an iteration with a live child: at most one record is published.\<close>

lemma tick_alive_outcomes:
  assumes alive: "child_exit w = None" and run: "tick dumps s w = (err, s', w')"
    and pub: "st \<in> set (published (map snd (new_events w w')))"
  shows "\<exists>s1 w1 healthy reason folder_bytes newest now last_ok deleted.
           newest_recording_mtime (disk w) = Inr newest
           \<and> st = tick_status s1 w1 healthy reason folder_bytes newest now last_ok
                    (fst (resource_usage w)) (snd (resource_usage w)) deleted"
proof -
  have quiet: "published (map (snd \<circ> Pair t) out) = []"
    if "enforce_storage_cap fs cap = Inr (k, out, fs1)" for t out fs cap k fs1
    using published_enforce_log [OF that] by (simp add: map_snd_Pair)
  show ?thesis
    using run pub unfolding tick_alive [OF alive] Let_def
    by (auto simp: new_events_def quiet split: sum.splits prod.splits option.splits) blast+
qed

text \<open>
  With a directory that can be written and a working \<^verbatim>\<open>Popen\<close>, a dead child is reported
  and replaced.
\<close>

lemma tick_exited_restarts:
  assumes dead: "child_exit w = Some c" and disk: "disk w = Inr d"
    and popen: "popen_res w = Inr pid" and io: "status_io w = working_io"
  shows "\<exists>s' w'. tick dumps s w = (None, s', w')
          \<and> new_events w w'
              = [(clock w + CHECK_EVERY_SECONDS,
                  Published (exit_status (w\<lparr>clock := clock w + CHECK_EVERY_SECONDS\<rparr>))),
                 (clock w + CHECK_EVERY_SECONDS + RESTART_BACKOFF_SECONDS, Spawned pid)]
          \<and> list_recording_files (disk w') = list_recording_files (disk w)"
proof -
  let ?t = "clock w + CHECK_EVERY_SECONDS"
  let ?st = "exit_status (w\<lparr>clock := ?t\<rparr>)"
  obtain d' where wr: "write_status dumps (status_io w) ?t (disk w) ?st = (None, Inr d')"
    using disk io write_status_ok [of dumps ?t d ?st] by auto
  have "list_recording_files (Inr d') = list_recording_files (disk w)"
    using write_status_segments [of dumps "status_io w" ?t "disk w" ?st] wr by simp
  then show ?thesis
    unfolding tick_exited [OF dead] Let_def wr
    by (simp add: popen new_events_def)
qed

lemma size_after_six: "folder_size_bytes (Inr (butlast scenario_six)) = Inr 10737418240"
proof -
  have "list_recording_files (Inr (butlast scenario_six)) =
     Inr [(''seg2.mp4'', 120, two_gb), (''seg3.mp4'', 180, two_gb),
          (''seg4.mp4'', 240, two_gb), (''seg5.mp4'', 300, two_gb), (''seg6.mp4'', 360, two_gb)]"
    by (simp add: list_recording_files_def os_listdir_def scenario_six_def scenario_five_def
        endswith_simps os_stat_def media_def)
  then show ?thesis
    by (simp add: folder_size_bytes_def total_size_def two_gb_def)
qed

lemma size_six: "folder_size_bytes (Inr scenario_six) = Inr 12884901888"
  by (simp add: folder_size_bytes_def list_six list_six_total)

lemma run_six_cap:
  "enforce_storage_cap (Inr scenario_six) (bytes_from_gb (real_of_int MAX_STORAGE_GB))
   = Inr (1, [Deleted ''seg1.mp4''], Inr (butlast scenario_six))"
  using run_six by (simp add: cap10 cap_value)

section \<open>Claims about the storage reclaimer\<close>

text \<open>
  Claim C1 (eviction correctness). Take a directory with distinct names in which every
  removal succeeds, and let \<open>files\<close> be its listing, oldest first. Then
  \<open>enforce_storage_cap\<close> removes exactly the first \<open>k\<close> files of that listing, in that
  order (so in ascending modification time, ties in listing order), and what is left is
  the rest of the listing. It stops as soon as the remaining total is within \<open>max_bytes\<close>
  or nothing is left, and it removes no more than needed: after any smaller number \<open>j\<close> of
  removals the remaining total still exceeds \<open>max_bytes\<close>. With five segments of 2 GB
  and a cap of 10 GB nothing is removed; with a sixth, exactly the oldest one is, and
  10 GB remain.
\<close>

theorem eviction_oldest_first:
  "(\<forall>d files max_bytes.
      distinct (map fst d) \<and> (\<forall>(name, n) \<in> set d. unlink_res n = None)
      \<and> list_recording_files (Inr d) = Inr files
      \<longrightarrow> (\<exists>k\<le>length files.
             enforce_storage_cap (Inr d) max_bytes
               = Inr (k, map (\<lambda>(p, mt, sz). Deleted p) (take k files),
                      Inr (filter (\<lambda>(name, n). name \<notin> set (map fst (take k files))) d))
             \<and> list_recording_files
                   (Inr (filter (\<lambda>(name, n). name \<notin> set (map fst (take k files))) d))
                 = Inr (drop k files)
             \<and> sorted (map (\<lambda>(p, mt, sz). mt) files)
             \<and> (\<forall>j<k. max_bytes < total_size (drop j files))
             \<and> (total_size (drop k files) \<le> max_bytes \<or> k = length files)))
   \<and> enforce_storage_cap (Inr scenario_five) (bytes_from_gb 10) = Inr (0, [], Inr scenario_five)
   \<and> enforce_storage_cap (Inr scenario_six) (bytes_from_gb 10)
       = Inr (1, [Deleted ''seg1.mp4''], Inr (butlast scenario_six))
   \<and> folder_size_bytes (Inr (butlast scenario_six)) = Inr (bytes_from_gb 10)"
proof (intro conjI allI impI)
  fix d files max_bytes
  assume a: "distinct (map fst d) \<and> (\<forall>(name, n) \<in> set d. unlink_res n = None)
      \<and> list_recording_files (Inr d) = Inr files"
  show "\<exists>k\<le>length files.
             enforce_storage_cap (Inr d) max_bytes
               = Inr (k, map (\<lambda>(p, mt, sz). Deleted p) (take k files),
                      Inr (filter (\<lambda>(name, n). name \<notin> set (map fst (take k files))) d))
             \<and> list_recording_files
                   (Inr (filter (\<lambda>(name, n). name \<notin> set (map fst (take k files))) d))
                 = Inr (drop k files)
             \<and> sorted (map (\<lambda>(p, mt, sz). mt) files)
             \<and> (\<forall>j<k. max_bytes < total_size (drop j files))
             \<and> (total_size (drop k files) \<le> max_bytes \<or> k = length files)"
    by (rule enforce_storage_cap_oldest_first) (use a in simp_all)
next
  show "enforce_storage_cap (Inr scenario_five) (bytes_from_gb 10) = Inr (0, [], Inr scenario_five)"
    by (rule run_five)
next
  show "enforce_storage_cap (Inr scenario_six) (bytes_from_gb 10)
       = Inr (1, [Deleted ''seg1.mp4''], Inr (butlast scenario_six))"
    by (rule run_six)
next
  have "list_recording_files (Inr (butlast scenario_six)) =
     Inr [(''seg2.mp4'', 120, two_gb), (''seg3.mp4'', 180, two_gb),
          (''seg4.mp4'', 240, two_gb), (''seg5.mp4'', 300, two_gb), (''seg6.mp4'', 360, two_gb)]"
    by (simp add: list_recording_files_def os_listdir_def scenario_six_def scenario_five_def
        endswith_simps os_stat_def media_def)
  then show "folder_size_bytes (Inr (butlast scenario_six)) = Inr (bytes_from_gb 10)"
    by (simp add: folder_size_bytes_def total_size_def two_gb_def cap10)
qed

text \<open>The theorem at the six segments with a cap of 5 GB: the four oldest go.\<close>

theorem eviction_oldest_first_witness:
  "distinct (map fst scenario_six)
   \<and> (\<exists>files k. list_recording_files (Inr scenario_six) = Inr files \<and> k \<le> length files
        \<and> enforce_storage_cap (Inr scenario_six) 5000000000
            = Inr (k, map (\<lambda>(p, mt, sz). Deleted p) (take k files),
                   Inr (filter (\<lambda>(name, n). name \<notin> set (map fst (take k files))) scenario_six))
        \<and> list_recording_files
              (Inr (filter (\<lambda>(name, n). name \<notin> set (map fst (take k files))) scenario_six))
            = Inr (drop k files)
        \<and> sorted (map (\<lambda>(p, mt, sz). mt) files)
        \<and> (total_size (drop k files) \<le> 5000000000 \<or> k = length files))
   \<and> enforce_storage_cap (Inr scenario_six) 5000000000
       = Inr (4, [Deleted ''seg1.mp4'', Deleted ''seg2.mp4'', Deleted ''seg3.mp4'',
                  Deleted ''seg4.mp4''],
              Inr [(''seg6.mp4'', media 360 two_gb), (''seg5.mp4'', media 300 two_gb)])"
proof -
  have d: "distinct (map fst scenario_six)"
    by (simp add: scenario_six_def scenario_five_def)
  have r: "\<forall>(name, n) \<in> set scenario_six. unlink_res n = None"
    by (simp add: scenario_six_def scenario_five_def media_def)
  have run: "enforce_storage_cap (Inr scenario_six) 5000000000
       = Inr (4, [Deleted ''seg1.mp4'', Deleted ''seg2.mp4'', Deleted ''seg3.mp4'',
                  Deleted ''seg4.mp4''],
              Inr [(''seg6.mp4'', media 360 two_gb), (''seg5.mp4'', media 300 two_gb)])"
    unfolding enforce_storage_cap_def list_six
    by (simp add: total_size_def two_gb_def os_remove_def
        scenario_six_def scenario_five_def media_def unlink_def)
  note inst = eviction_oldest_first [THEN conjunct1, rule_format,
      OF conjI [OF d conjI [OF r list_six]], of 5000000000]
  from inst list_six have "\<exists>files k. list_recording_files (Inr scenario_six) = Inr files \<and> k \<le> length files
        \<and> enforce_storage_cap (Inr scenario_six) 5000000000
            = Inr (k, map (\<lambda>(p, mt, sz). Deleted p) (take k files),
                   Inr (filter (\<lambda>(name, n). name \<notin> set (map fst (take k files))) scenario_six))
        \<and> list_recording_files
              (Inr (filter (\<lambda>(name, n). name \<notin> set (map fst (take k files))) scenario_six))
            = Inr (drop k files)
        \<and> sorted (map (\<lambda>(p, mt, sz). mt) files)
        \<and> (total_size (drop k files) \<le> 5000000000 \<or> k = length files)"
    by blast
  with d run show ?thesis
    by (intro conjI)
qed

text \<open>
  Claim C9 (idempotence). Whenever the segments of the directory already total at most
  \<open>max_bytes\<close>, \<open>enforce_storage_cap\<close> removes nothing, prints nothing, leaves the
  directory as it is and returns 0; in particular this is so for the directory a previous
  pass left behind, once that pass brought the total to the cap or below.
\<close>

theorem reclaim_under_cap_is_noop:
  "(folder_size_bytes fs = Inr S \<and> S \<le> max_bytes
      \<longrightarrow> enforce_storage_cap fs max_bytes = Inr (0, [], fs))
   \<and> (enforce_storage_cap fs0 max_bytes = Inr (k, out, fs1)
        \<and> folder_size_bytes fs1 = Inr S1 \<and> S1 \<le> max_bytes
      \<longrightarrow> enforce_storage_cap fs1 max_bytes = Inr (0, [], fs1))"
proof -
  have noop: "enforce_storage_cap g max_bytes = Inr (0, [], g)"
    if size: "folder_size_bytes g = Inr T" and le: "T \<le> max_bytes" for g T
  proof -
    obtain files where files: "list_recording_files g = Inr files" and T: "T = total_size files"
      using size by (auto simp: folder_size_bytes_def split: sum.splits)
    then show ?thesis
      using le by (simp add: enforce_storage_cap_def reclaim_loop_stop)
  qed
  show ?thesis
    using noop by blast
qed

text \<open>
  The theorem at Scenario A: the five 2 GB segments are at the 10 GB cap, and so is what
  a pass over the six leaves.
\<close>

theorem reclaim_under_cap_is_noop_witness:
  "folder_size_bytes (Inr scenario_five) = Inr 10737418240
   \<and> (10737418240 :: int) \<le> bytes_from_gb 10
   \<and> enforce_storage_cap (Inr scenario_five) (bytes_from_gb 10) = Inr (0, [], Inr scenario_five)
   \<and> enforce_storage_cap (Inr scenario_six) (bytes_from_gb 10)
       = Inr (1, [Deleted ''seg1.mp4''], Inr (butlast scenario_six))
   \<and> folder_size_bytes (Inr (butlast scenario_six)) = Inr 10737418240
   \<and> enforce_storage_cap (Inr (butlast scenario_six)) (bytes_from_gb 10)
       = Inr (0, [], Inr (butlast scenario_six))"
proof -
  have five: "folder_size_bytes (Inr scenario_five) = Inr 10737418240"
    by (simp add: folder_size_bytes_def list_five total_size_def two_gb_def)
  have cap: "(10737418240 :: int) \<le> bytes_from_gb 10"
    by (simp add: cap10)
  have rest: "butlast scenario_six = (''seg6.mp4'', media 360 two_gb) # butlast scenario_five"
    by (simp add: scenario_six_def scenario_five_def)
  have "list_recording_files (Inr (butlast scenario_six)) =
     Inr [(''seg2.mp4'', 120, two_gb), (''seg3.mp4'', 180, two_gb),
          (''seg4.mp4'', 240, two_gb), (''seg5.mp4'', 300, two_gb), (''seg6.mp4'', 360, two_gb)]"
    by (simp add: list_recording_files_def os_listdir_def scenario_six_def scenario_five_def
        endswith_simps os_stat_def media_def)
  then have after: "folder_size_bytes (Inr (butlast scenario_six)) = Inr 10737418240"
    by (simp add: folder_size_bytes_def total_size_def two_gb_def)
  from reclaim_under_cap_is_noop
    [of "Inr scenario_five" 10737418240 "bytes_from_gb 10" "Inr scenario_six" 1
        "[Deleted ''seg1.mp4'']" "Inr (butlast scenario_six)" 10737418240]
    five cap after run_six
  show ?thesis by simp
qed

text \<open>
  Claim C7 (delete errors). In a reclamation pass that is still over the cap, a
  \<open>FileNotFoundError\<close> from \<^verbatim>\<open>os.remove\<close> is ignored: the pass goes on with the next oldest
  file, with the total and the count as they were. Any other exception ends the pass:
  the failure is logged, nothing further is removed (the directory is returned as it
  is) and the count so far is returned. In every case \<open>enforce_storage_cap\<close> returns
  normally once the listing has, and the count it returns is the number of files it
  removed: each of them was a listed segment and is gone from the directory.
\<close>

theorem delete_errors_do_not_escape:
  "(max_bytes < tot \<and> fst (os_remove p fs) = Some FileNotFoundError
      \<longrightarrow> reclaim_loop max_bytes ((p, mt, sz) # rest) tot deleted out fs
          = reclaim_loop max_bytes rest tot deleted out (snd (os_remove p fs)))
   \<and> (max_bytes < tot \<and> fst (os_remove p fs) = Some e \<and> e \<noteq> FileNotFoundError
      \<longrightarrow> reclaim_loop max_bytes ((p, mt, sz) # rest) tot deleted out fs
          = (deleted, out @ [DeleteFailed p e], fs))
   \<and> (list_recording_files fs = Inr files
      \<longrightarrow> (\<exists>k out' fs'.
             enforce_storage_cap fs max_bytes = Inr (k, out', fs')
             \<and> k = length (deleted_paths out')
             \<and> set (deleted_paths out') \<subseteq> fst ` set files
             \<and> (\<forall>d'. fs' = Inr d' \<longrightarrow> (\<forall>q \<in> set (deleted_paths out'). map_of d' q = None))))"
proof (intro conjI impI)
  assume "max_bytes < tot \<and> fst (os_remove p fs) = Some FileNotFoundError"
  then show "reclaim_loop max_bytes ((p, mt, sz) # rest) tot deleted out fs
          = reclaim_loop max_bytes rest tot deleted out (snd (os_remove p fs))"
    by (cases "os_remove p fs") simp
next
  assume a: "max_bytes < tot \<and> fst (os_remove p fs) = Some e \<and> e \<noteq> FileNotFoundError"
  then have "snd (os_remove p fs) = fs"
    by (simp add: os_remove_other_error)
  with a show "reclaim_loop max_bytes ((p, mt, sz) # rest) tot deleted out fs
          = (deleted, out @ [DeleteFailed p e], fs)"
    by (cases "os_remove p fs") simp
next
  assume listing: "list_recording_files fs = Inr files"
  let ?run = "reclaim_loop max_bytes files (total_size files) 0 [] fs"
  have run: "enforce_storage_cap fs max_bytes = Inr (fst ?run, fst (snd ?run), snd (snd ?run))"
    by (simp add: enforce_storage_cap_def listing)
  have count: "fst ?run = length (deleted_paths (fst (snd ?run)))"
    using reclaim_loop_count [of max_bytes files "total_size files" 0 "[]" fs] by simp
  have paths: "set (deleted_paths (fst (snd ?run))) \<subseteq> fst ` set files"
    using reclaim_loop_deleted_paths [of max_bytes files "total_size files" 0 "[]" fs] by simp
  have gone: "\<forall>d'. snd (snd ?run) = Inr d'
                \<longrightarrow> (\<forall>q \<in> set (deleted_paths (fst (snd ?run))). map_of d' q = None)"
  proof (intro allI impI ballI)
    fix d' q
    assume d': "snd (snd ?run) = Inr d'" and q: "q \<in> set (deleted_paths (fst (snd ?run)))"
    show "map_of d' q = None"
    proof (cases fs)
      case (Inl e)
      then have "files = []"
        using listing by (auto simp: list_recording_files_def os_listdir_def split: if_splits)
      with q show ?thesis by simp
    next
      case (Inr d)
      with reclaim_loop_deleted_gone [of max_bytes files "total_size files" 0 "[]" d d' q] d' q
      show ?thesis by simp
    qed
  qed
  from run count paths gone
  show "\<exists>k out' fs'.
             enforce_storage_cap fs max_bytes = Inr (k, out', fs')
             \<and> k = length (deleted_paths out')
             \<and> set (deleted_paths out') \<subseteq> fst ` set files
             \<and> (\<forall>d'. fs' = Inr d' \<longrightarrow> (\<forall>q \<in> set (deleted_paths out'). map_of d' q = None))"
    by blast
qed

text \<open>
  The theorem on a directory whose oldest segment has vanished and whose third cannot
  be removed: one file is removed, the fourth is never tried.
\<close>

theorem delete_errors_do_not_escape_witness:
  "fst (os_remove ''old1.mp4'' (Inr faulty_directory)) = Some FileNotFoundError
   \<and> reclaim_loop 1000 [(''old1.mp4'', 10, 700), (''old2.mp4'', 20, 700)] 2800 0 []
        (Inr faulty_directory)
      = reclaim_loop 1000 [(''old2.mp4'', 20, 700)] 2800 0 [] (Inr (tl faulty_directory))
   \<and> fst (os_remove ''old3.mp4'' (Inr faulty_directory)) = Some PermissionError
   \<and> reclaim_loop 1000 [(''old3.mp4'', 30, 700), (''old4.mp4'', 40, 700)] 2100 1
        [Deleted ''old2.mp4''] (Inr faulty_directory)
      = (1, [Deleted ''old2.mp4'', DeleteFailed ''old3.mp4'' PermissionError],
         Inr faulty_directory)
   \<and> enforce_storage_cap (Inr faulty_directory) 1000
      = Inr (1, [Deleted ''old2.mp4'', DeleteFailed ''old3.mp4'' PermissionError],
             Inr (drop 2 faulty_directory))
   \<and> map_of (drop 2 faulty_directory) ''old2.mp4'' = None"
proof -
  have r1: "os_remove ''old1.mp4'' (Inr faulty_directory)
            = (Some FileNotFoundError, Inr (tl faulty_directory))"
    by (simp add: os_remove_def faulty_directory_def unlink_def media_def)
  have r3: "os_remove ''old3.mp4'' (Inr faulty_directory)
            = (Some PermissionError, Inr faulty_directory)"
    by (simp add: os_remove_def faulty_directory_def media_def)
  have a: "reclaim_loop 1000 [(''old1.mp4'', 10, 700), (''old2.mp4'', 20, 700)] 2800 0 []
        (Inr faulty_directory)
      = reclaim_loop 1000 [(''old2.mp4'', 20, 700)] 2800 0 [] (Inr (tl faulty_directory))"
    using delete_errors_do_not_escape
      [where max_bytes = 1000 and tot = 2800 and p = "''old1.mp4''" and mt = 10 and sz = 700
         and fs = "Inr faulty_directory" and rest = "[(''old2.mp4'', 20, 700)]"
         and deleted = 0 and out = "[]", THEN conjunct1, THEN mp]
    by (simp add: r1)
  have b: "reclaim_loop 1000 [(''old3.mp4'', 30, 700), (''old4.mp4'', 40, 700)] 2100 1
        [Deleted ''old2.mp4''] (Inr faulty_directory)
      = (1, [Deleted ''old2.mp4'', DeleteFailed ''old3.mp4'' PermissionError],
         Inr faulty_directory)"
    using delete_errors_do_not_escape
      [where max_bytes = 1000 and tot = 2100 and p = "''old3.mp4''" and mt = 30 and sz = 700
         and fs = "Inr faulty_directory" and rest = "[(''old4.mp4'', 40, 700)]"
         and deleted = 1 and out = "[Deleted ''old2.mp4'']" and e = PermissionError,
       THEN conjunct2, THEN conjunct1, THEN mp]
    by (simp add: r3)
  have c: "map_of (drop 2 faulty_directory) ''old2.mp4'' = None"
    using delete_errors_do_not_escape
      [where max_bytes = 1000 and fs = "Inr faulty_directory", THEN conjunct2, THEN conjunct2]
      list_faulty run_faulty
    by auto
  from a b c r1 r3 run_faulty show ?thesis
    by simp
qed

text \<open>
  Claim C10 (only segments are touched). The inventory lists only names ending in
  \<^verbatim>\<open>.mp4\<close>, and a reclamation pass removes only such names: every other entry of the
  directory is there afterwards, unchanged and in place. \<^verbatim>\<open>status.json\<close> and
  \<^verbatim>\<open>status.json.tmp\<close> do not end in \<^verbatim>\<open>.mp4\<close>, so no pass removes them, in any state of
  the directory. The folder size is the size of the \<^verbatim>\<open>.mp4\<close> entries alone, and writing
  the status file changes neither the listing nor the folder size, whether the write
  succeeds or fails part-way.
\<close>

theorem status_files_never_reclaimed:
  "(list_recording_files fs = Inr files \<longrightarrow> (\<forall>(p, mt, sz) \<in> set files. endswith p ''.mp4''))
   \<and> (enforce_storage_cap (Inr d) max_bytes = Inr (k, out, fs')
        \<longrightarrow> (\<forall>q \<in> set (deleted_paths out). endswith q ''.mp4'')
            \<and> (\<exists>d'. fs' = Inr d'
                  \<and> (\<forall>name. \<not> endswith name ''.mp4'' \<longrightarrow> map_of d' name = map_of d name)
                  \<and> filter (\<lambda>(name, n). \<not> endswith name ''.mp4'') d'
                      = filter (\<lambda>(name, n). \<not> endswith name ''.mp4'') d
                  \<and> map_of d' ''status.json'' = map_of d ''status.json''
                  \<and> map_of d' ''status.json.tmp'' = map_of d ''status.json.tmp''))
   \<and> folder_size_bytes (Inr d)
       = folder_size_bytes (Inr (filter (\<lambda>(name, n). endswith name ''.mp4'') d))
   \<and> \<not> endswith ''status.json'' ''.mp4'' \<and> \<not> endswith ''status.json.tmp'' ''.mp4''
   \<and> (write_status dumps ans now fs status = (r, fs2)
        \<longrightarrow> list_recording_files fs2 = list_recording_files fs
            \<and> folder_size_bytes fs2 = folder_size_bytes fs)"
proof (intro conjI impI)
  assume listing: "list_recording_files fs = Inr files"
  show "\<forall>(p, mt, sz) \<in> set files. endswith p ''.mp4''"
  proof (cases fs)
    case (Inl e)
    then have "files = []"
      using listing by (auto simp: list_recording_files_def os_listdir_def split: if_splits)
    then show ?thesis by simp
  next
    case (Inr d0)
    then show ?thesis
      using list_recording_files_entry [of d0 files] listing by auto
  qed
next
  assume "enforce_storage_cap (Inr d) max_bytes = Inr (k, out, fs')"
  then show "\<forall>q \<in> set (deleted_paths out). endswith q ''.mp4''"
    using enforce_keeps_nonsegments by blast
next
  assume "enforce_storage_cap (Inr d) max_bytes = Inr (k, out, fs')"
  from enforce_keeps_nonsegments [OF this]
  obtain d' where "fs' = Inr d'"
    and "\<forall>name. \<not> endswith name ''.mp4'' \<longrightarrow> map_of d' name = map_of d name"
    and "filter (\<lambda>(name, n). \<not> endswith name ''.mp4'') d'
         = filter (\<lambda>(name, n). \<not> endswith name ''.mp4'') d"
    by blast
  then show "\<exists>d'. fs' = Inr d'
                  \<and> (\<forall>name. \<not> endswith name ''.mp4'' \<longrightarrow> map_of d' name = map_of d name)
                  \<and> filter (\<lambda>(name, n). \<not> endswith name ''.mp4'') d'
                      = filter (\<lambda>(name, n). \<not> endswith name ''.mp4'') d
                  \<and> map_of d' ''status.json'' = map_of d ''status.json''
                  \<and> map_of d' ''status.json.tmp'' = map_of d ''status.json.tmp''"
    using not_segment_names by blast
next
  show "folder_size_bytes (Inr d)
       = folder_size_bytes (Inr (filter (\<lambda>(name, n). endswith name ''.mp4'') d))"
    by (simp add: folder_size_bytes_def list_recording_files_segments_only)
next
  show "\<not> endswith ''status.json'' ''.mp4''" "\<not> endswith ''status.json.tmp'' ''.mp4''"
    by (rule not_segment_names)+
next
  assume w: "write_status dumps ans now fs status = (r, fs2)"
  then show "list_recording_files fs2 = list_recording_files fs"
    using write_status_segments [of dumps ans now fs status] by simp
  then show "folder_size_bytes fs2 = folder_size_bytes fs"
    by (simp add: folder_size_bytes_def)
qed

text \<open>
  The theorem on a directory holding both status files and two segments, 400 bytes over
  a cap of 1000.
\<close>

theorem status_files_never_reclaimed_witness:
  "list_recording_files (Inr mixed_directory)
     = Inr [(''seg1.mp4'', 60, 700), (''seg2.mp4'', 120, 700)]
   \<and> enforce_storage_cap (Inr mixed_directory) 1000
       = Inr (1, [Deleted ''seg1.mp4''],
              Inr [mixed_directory ! 0, mixed_directory ! 2, mixed_directory ! 3])
   \<and> endswith ''seg1.mp4'' ''.mp4''
   \<and> endswith ''seg2.mp4'' ''.mp4''
   \<and> map_of [mixed_directory ! 0, mixed_directory ! 2, mixed_directory ! 3] ''status.json''
       = map_of mixed_directory ''status.json''
   \<and> map_of [mixed_directory ! 0, mixed_directory ! 2, mixed_directory ! 3] ''status.json.tmp''
       = map_of mixed_directory ''status.json.tmp''
   \<and> map_of mixed_directory ''status.json'' = Some (snd (mixed_directory ! 0))
   \<and> folder_size_bytes (Inr mixed_directory) = Inr 1400
   \<and> (\<exists>fs2. write_status key_dumps working_io 2000 (Inr mixed_directory) [] = (None, fs2)
              \<and> folder_size_bytes fs2 = Inr 1400)"
proof -
  note inst = status_files_never_reclaimed
    [where fs = "Inr mixed_directory" and d = mixed_directory and max_bytes = 1000
       and dumps = key_dumps and ans = working_io and now = 2000 and status = "[]"]
  have "(\<forall>q \<in> set (deleted_paths [Deleted ''seg1.mp4'']). endswith q ''.mp4'')
        \<and> (\<exists>d'. (Inr [mixed_directory ! 0, mixed_directory ! 2, mixed_directory ! 3] :: filesystem)
                  = Inr d'
              \<and> (\<forall>name. \<not> endswith name ''.mp4'' \<longrightarrow> map_of d' name = map_of mixed_directory name)
              \<and> filter (\<lambda>(name, n). \<not> endswith name ''.mp4'') d'
                  = filter (\<lambda>(name, n). \<not> endswith name ''.mp4'') mixed_directory
              \<and> map_of d' ''status.json'' = map_of mixed_directory ''status.json''
              \<and> map_of d' ''status.json.tmp'' = map_of mixed_directory ''status.json.tmp'')"
    by (rule inst [THEN conjunct2, THEN conjunct1, THEN mp]) (rule run_mixed)
  then have kept: "endswith ''seg1.mp4'' ''.mp4''"
    "map_of [mixed_directory ! 0, mixed_directory ! 2, mixed_directory ! 3] ''status.json''
       = map_of mixed_directory ''status.json''"
    "map_of [mixed_directory ! 0, mixed_directory ! 2, mixed_directory ! 3] ''status.json.tmp''
       = map_of mixed_directory ''status.json.tmp''"
    by auto
  have "\<forall>(p, mt, sz) \<in> set [(''seg1.mp4'', 60 :: real, 700 :: nat), (''seg2.mp4'', 120, 700)].
          endswith p ''.mp4''"
    by (rule inst [THEN conjunct1, THEN mp]) (rule list_mixed)
  then have listed: "endswith ''seg2.mp4'' ''.mp4''"
    by simp
  have there: "map_of mixed_directory ''status.json'' = Some (snd (mixed_directory ! 0))"
    by (simp add: mixed_directory_def)
  have size: "folder_size_bytes (Inr mixed_directory) = Inr 1400"
    by (simp add: folder_size_bytes_def list_mixed total_size_def)
  obtain d2 where w: "write_status key_dumps working_io 2000 (Inr mixed_directory) []
                      = (None, Inr d2)"
    using write_status_ok by blast
  have "folder_size_bytes (Inr d2) = folder_size_bytes (Inr mixed_directory)"
    using inst [THEN conjunct2, THEN conjunct2, THEN conjunct2, THEN conjunct2, THEN conjunct2,
                THEN mp, OF w]
    by simp
  with w size have "\<exists>fs2. write_status key_dumps working_io 2000 (Inr mixed_directory) []
                           = (None, fs2)
              \<and> folder_size_bytes fs2 = Inr 1400"
    by simp
  with list_mixed run_mixed kept listed there size show ?thesis
    by (intro conjI)
qed

section \<open>Claims about the supervisor loop\<close>

text \<open>
  Claim C8 (empty state), amended. For an output directory that is empty or does not
  exist, the inventory is the empty list and no exception is raised, the folder size is
  0, there is no newest modification time, a reclamation pass removes nothing, and the
  health check says unhealthy with reason \<^verbatim>\<open>no_new_segments\<close>, leaving the last healthy time
  as it was. With a live child, an iteration over such a directory does nothing but sleep
  and write the status record saying so (not recording, \<^verbatim>\<open>no_new_segments\<close>, folder size 0,
  newest modification time null, nothing deleted): no step before the write raises, the
  supervisor's variables stay as they were, and the iteration ends as the write ends.
  In an empty directory that can be written the iteration completes, publishes that
  record, and \<^verbatim>\<open>status.json\<close> holds it. In an absent directory the write raises
  \<^verbatim>\<open>FileNotFoundError\<close>, and in an empty directory where the temporary file cannot be
  opened it raises that error: the iteration publishes nothing and \<open>main\<close> ends.
\<close>

theorem empty_directory_is_unhealthy:
  "list_recording_files (Inl FileNotFoundError) = Inr []
   \<and> list_recording_files (Inr []) = Inr []
   \<and> folder_size_bytes (Inl FileNotFoundError) = Inr 0
   \<and> folder_size_bytes (Inr []) = Inr 0
   \<and> newest_recording_mtime (Inl FileNotFoundError) = Inr None
   \<and> newest_recording_mtime (Inr []) = Inr None
   \<and> enforce_storage_cap (Inl FileNotFoundError) max_bytes = Inr (0, [], Inl FileNotFoundError)
   \<and> enforce_storage_cap (Inr []) max_bytes = Inr (0, [], Inr [])
   \<and> health_check None now last_ok = (False, ''no_new_segments'', last_ok)
   \<and> (child_exit w = None \<and> (disk w = Inr [] \<or> disk w = Inl FileNotFoundError)
        \<longrightarrow> (\<exists>st. map_of st ''recording'' = Some (JBool False)
               \<and> map_of st ''reason'' = Some (JStr ''no_new_segments'')
               \<and> map_of st ''folder_size_bytes'' = Some (JInt 0)
               \<and> map_of st ''newest_segment_mtime'' = Some JNull
               \<and> map_of st ''deleted_files_this_check'' = Some (JInt 0)
               \<and> tick dumps s w
                   = (let t = clock w + CHECK_EVERY_SECONDS;
                          r = write_status dumps (status_io w) t (disk w) st
                      in (fst r, s,
                          w\<lparr>clock := t, disk := snd r,
                             trace := trace w
                               @ (if fst r = None then [(t, Published st)] else [])\<rparr>))))
   \<and> (child_exit w = None \<and> disk w = Inr [] \<and> status_io w = working_io
        \<longrightarrow> (\<exists>st w'. tick dumps s w = (None, s, w')
               \<and> new_events w w' = [(clock w + CHECK_EVERY_SECONDS, Published st)]
               \<and> status_file (disk w') = Some st
               \<and> map_of st ''recording'' = Some (JBool False)
               \<and> map_of st ''reason'' = Some (JStr ''no_new_segments'')
               \<and> map_of st ''folder_size_bytes'' = Some (JInt 0)
               \<and> map_of st ''newest_segment_mtime'' = Some JNull
               \<and> map_of st ''deleted_files_this_check'' = Some (JInt 0)))
   \<and> (child_exit w = None \<and> disk w = Inl FileNotFoundError
        \<longrightarrow> tick dumps s w
            = (Some FileNotFoundError, s, w\<lparr>clock := clock w + CHECK_EVERY_SECONDS\<rparr>))
   \<and> (child_exit w = None \<and> disk w = Inr [] \<and> open_raises (status_io w) = Some e
        \<longrightarrow> tick dumps s w = (Some e, s, w\<lparr>clock := clock w + CHECK_EVERY_SECONDS\<rparr>))"
proof (intro conjI impI)
  let ?t = "clock w + CHECK_EVERY_SECONDS"
  let ?st = "tick_status s (w\<lparr>clock := ?t\<rparr>) False ''no_new_segments'' 0 None ?t (last_ok_time s)
               (fst (resource_usage w)) (snd (resource_usage w)) 0"
  have fields: "map_of ?st ''recording'' = Some (JBool False)"
    "map_of ?st ''reason'' = Some (JStr ''no_new_segments'')"
    "map_of ?st ''folder_size_bytes'' = Some (JInt 0)"
    "map_of ?st ''newest_segment_mtime'' = Some JNull"
    "map_of ?st ''deleted_files_this_check'' = Some (JInt 0)"
    by (simp_all add: tick_status_lookup json_opt_def)
  show "\<exists>st. map_of st ''recording'' = Some (JBool False)
               \<and> map_of st ''reason'' = Some (JStr ''no_new_segments'')
               \<and> map_of st ''folder_size_bytes'' = Some (JInt 0)
               \<and> map_of st ''newest_segment_mtime'' = Some JNull
               \<and> map_of st ''deleted_files_this_check'' = Some (JInt 0)
               \<and> tick dumps s w
                   = (let t = clock w + CHECK_EVERY_SECONDS;
                          r = write_status dumps (status_io w) t (disk w) st
                      in (fst r, s,
                          w\<lparr>clock := t, disk := snd r,
                             trace := trace w
                               @ (if fst r = None then [(t, Published st)] else [])\<rparr>))"
    if a: "child_exit w = None \<and> (disk w = Inr [] \<or> disk w = Inl FileNotFoundError)"
  proof -
    have "tick dumps s w
          = (let t = clock w + CHECK_EVERY_SECONDS;
                 r = write_status dumps (status_io w) t (disk w) ?st
             in (fst r, s,
                 w\<lparr>clock := t, disk := snd r,
                    trace := trace w @ (if fst r = None then [(t, Published ?st)] else [])\<rparr>))"
      using tick_alive_empty [OF a [THEN conjunct1] a [THEN conjunct2], of dumps s]
      by (simp add: Let_def)
    with fields show ?thesis
      by (intro exI [of _ ?st] conjI)
  qed
  show "\<exists>st w'. tick dumps s w = (None, s, w')
               \<and> new_events w w' = [(clock w + CHECK_EVERY_SECONDS, Published st)]
               \<and> status_file (disk w') = Some st
               \<and> map_of st ''recording'' = Some (JBool False)
               \<and> map_of st ''reason'' = Some (JStr ''no_new_segments'')
               \<and> map_of st ''folder_size_bytes'' = Some (JInt 0)
               \<and> map_of st ''newest_segment_mtime'' = Some JNull
               \<and> map_of st ''deleted_files_this_check'' = Some (JInt 0)"
    if a: "child_exit w = None \<and> disk w = Inr [] \<and> status_io w = working_io"
  proof -
    obtain d' where wr: "write_status dumps (status_io w) ?t (disk w) ?st = (None, Inr d')"
      using a write_status_ok [of dumps ?t "[]" ?st] by auto
    have written: "status_file (Inr d') = Some ?st"
      using wr by (rule write_status_published)
    let ?w' = "w\<lparr>clock := ?t, disk := Inr d', trace := trace w @ [(?t, Published ?st)]\<rparr>"
    have wr': "write_status dumps working_io ?t (Inr []) ?st = (None, Inr d')"
      using a wr by simp
    have run: "tick dumps s w = (None, s, ?w')"
      using a tick_alive_empty [of w dumps s] by (simp add: Let_def wr')
    have ev: "new_events w ?w' = [(?t, Published ?st)]"
      by (simp add: new_events_def)
    have disk: "status_file (disk ?w') = Some ?st"
      using written by simp
    from run ev disk fields show ?thesis
      by (intro exI [of _ ?st] exI [of _ ?w'] conjI)
  qed
  show "tick dumps s w = (Some FileNotFoundError, s, w\<lparr>clock := ?t\<rparr>)"
    if a: "child_exit w = None \<and> disk w = Inl FileNotFoundError"
    using a by (simp add: tick_absent_directory)
  show "tick dumps s w = (Some e, s, w\<lparr>clock := ?t\<rparr>)"
    if a: "child_exit w = None \<and> disk w = Inr [] \<and> open_raises (status_io w) = Some e"
  proof -
    have "w\<lparr>clock := ?t, disk := Inr [], trace := trace w\<rparr> = w\<lparr>clock := ?t\<rparr>"
      using a by (cases w) simp
    then show ?thesis
      using a tick_alive_empty [of w dumps s]
      by (simp add: Let_def write_status_open_fails)
  qed
qed (simp_all add: empty_inventory folder_size_bytes_def newest_recording_mtime_def
       enforce_storage_cap_def total_size_def health_check_def)

text \<open>
  Claim C8 as stated fails: it promises no crash anywhere on the path of an iteration
  that finds the output directory empty or absent. With a live child and an absent
  directory the inventory is empty and raises nothing, but the iteration then writes the
  status file into the directory that is not there: \<open>write_status\<close> raises
  \<^verbatim>\<open>FileNotFoundError\<close>, which nothing catches, and \<open>main\<close> ends.
\<close>

theorem empty_directory_is_unhealthy_counterexample:
  "child_exit absent_world = None
   \<and> disk absent_world = Inl FileNotFoundError
   \<and> list_recording_files (disk absent_world) = Inr []
   \<and> tick key_dumps started absent_world
       = (Some FileNotFoundError, started, absent_world\<lparr>clock := 1010\<rparr>)"
proof -
  have a: "child_exit absent_world = None" "disk absent_world = Inl FileNotFoundError"
    by (simp_all add: absent_world_def idle_world_def)
  have "clock absent_world + CHECK_EVERY_SECONDS = 1010"
    by (simp add: absent_world_def idle_world_def CHECK_EVERY_SECONDS_def)
  then show ?thesis
    using tick_absent_directory [OF a, of key_dumps started] a
    by (simp add: empty_inventory)
qed

text \<open>
  The theorem at three worlds with a live child and the clock at 1000: an empty directory
  that can be written, an absent directory, and an empty directory that cannot be written.
\<close>

theorem empty_directory_is_unhealthy_witness:
  "child_exit idle_world = None \<and> disk idle_world = Inr [] \<and> status_io idle_world = working_io
   \<and> (\<exists>st w'. tick key_dumps started idle_world = (None, started, w')
          \<and> new_events idle_world w' = [(1010, Published st)]
          \<and> status_file (disk w') = Some st
          \<and> map_of st ''recording'' = Some (JBool False)
          \<and> map_of st ''reason'' = Some (JStr ''no_new_segments'')
          \<and> map_of st ''folder_size_bytes'' = Some (JInt 0)
          \<and> map_of st ''newest_segment_mtime'' = Some JNull
          \<and> map_of st ''deleted_files_this_check'' = Some (JInt 0))
   \<and> (\<exists>st. map_of st ''recording'' = Some (JBool False)
          \<and> map_of st ''reason'' = Some (JStr ''no_new_segments'')
          \<and> fst (tick key_dumps started absent_world)
              = fst (write_status key_dumps working_io 1010 (Inl FileNotFoundError) st))
   \<and> child_exit absent_world = None \<and> disk absent_world = Inl FileNotFoundError
   \<and> tick key_dumps started absent_world
       = (Some FileNotFoundError, started, absent_world\<lparr>clock := 1010\<rparr>)
   \<and> child_exit unwritable_world = None \<and> disk unwritable_world = Inr []
   \<and> open_raises (status_io unwritable_world) = Some PermissionError
   \<and> tick key_dumps started unwritable_world
       = (Some PermissionError, started, unwritable_world\<lparr>clock := 1010\<rparr>)"
proof -
  note at_idle = empty_directory_is_unhealthy
    [where dumps = key_dumps and s = started and w = idle_world,
     THEN conjunct2, THEN conjunct2, THEN conjunct2, THEN conjunct2, THEN conjunct2,
     THEN conjunct2, THEN conjunct2, THEN conjunct2, THEN conjunct2]
  note at_absent = empty_directory_is_unhealthy
    [where dumps = key_dumps and s = started and w = absent_world,
     THEN conjunct2, THEN conjunct2, THEN conjunct2, THEN conjunct2, THEN conjunct2,
     THEN conjunct2, THEN conjunct2, THEN conjunct2, THEN conjunct2]
  note at_unwritable = empty_directory_is_unhealthy
    [where dumps = key_dumps and s = started and w = unwritable_world
       and e = PermissionError,
     THEN conjunct2, THEN conjunct2, THEN conjunct2, THEN conjunct2, THEN conjunct2,
     THEN conjunct2, THEN conjunct2, THEN conjunct2, THEN conjunct2]
  have a: "child_exit idle_world = None \<and> disk idle_world = Inr []
           \<and> status_io idle_world = working_io"
    by (simp add: idle_world_def)
  have c: "clock idle_world + CHECK_EVERY_SECONDS = 1010"
    "clock absent_world + CHECK_EVERY_SECONDS = 1010"
    "clock unwritable_world + CHECK_EVERY_SECONDS = 1010"
    by (simp_all add: idle_world_def absent_world_def unwritable_world_def
        CHECK_EVERY_SECONDS_def)
  have first: "\<exists>st w'. tick key_dumps started idle_world = (None, started, w')
          \<and> new_events idle_world w' = [(1010, Published st)]
          \<and> status_file (disk w') = Some st
          \<and> map_of st ''recording'' = Some (JBool False)
          \<and> map_of st ''reason'' = Some (JStr ''no_new_segments'')
          \<and> map_of st ''folder_size_bytes'' = Some (JInt 0)
          \<and> map_of st ''newest_segment_mtime'' = Some JNull
          \<and> map_of st ''deleted_files_this_check'' = Some (JInt 0)"
    using at_idle [THEN conjunct2, THEN conjunct1, THEN mp, OF a]
    unfolding c .
  have b: "child_exit absent_world = None \<and> disk absent_world = Inl FileNotFoundError"
    by (simp add: absent_world_def idle_world_def)
  have b': "child_exit absent_world = None
            \<and> (disk absent_world = Inr [] \<or> disk absent_world = Inl FileNotFoundError)"
    using b by simp
  have io: "status_io absent_world = working_io"
    by (simp add: absent_world_def idle_world_def)
  have second: "\<exists>st. map_of st ''recording'' = Some (JBool False)
          \<and> map_of st ''reason'' = Some (JStr ''no_new_segments'')
          \<and> fst (tick key_dumps started absent_world)
              = fst (write_status key_dumps working_io 1010 (Inl FileNotFoundError) st)"
    using at_absent [THEN conjunct1, THEN mp, OF b']
    unfolding c by (auto simp: Let_def io b)
  have third: "tick key_dumps started absent_world
       = (Some FileNotFoundError, started, absent_world\<lparr>clock := 1010\<rparr>)"
    using at_absent [THEN conjunct2, THEN conjunct2, THEN conjunct1, THEN mp, OF b]
    unfolding c .
  have d: "child_exit unwritable_world = None \<and> disk unwritable_world = Inr []
           \<and> open_raises (status_io unwritable_world) = Some PermissionError"
    by (simp add: unwritable_world_def unwritable_io_def idle_world_def)
  have fourth: "tick key_dumps started unwritable_world
       = (Some PermissionError, started, unwritable_world\<lparr>clock := 1010\<rparr>)"
    using at_unwritable [THEN conjunct2, THEN conjunct2, THEN conjunct2, THEN mp, OF d]
    unfolding c .
  from a first second b third d show ?thesis
    using fourth by (intro conjI) simp_all
qed

text \<open>
  Claim C5 (freshness boundary). The health check says healthy exactly when a newest
  segment exists and its age, the current time minus its modification time, is at most
  \<open>NO_PROGRESS_TIMEOUT_SECONDS\<close>. The bound is inclusive: an age of exactly the timeout is
  healthy, any greater age is unhealthy with reason \<^verbatim>\<open>no_new_segments\<close>. Every completed
  iteration with a live child publishes this judgement, made at the time it woke up.
\<close>

theorem freshness_boundary_inclusive:
  "(fst (health_check newest now last_ok)
      \<longleftrightarrow> (\<exists>mt. newest = Some mt \<and> now - mt \<le> NO_PROGRESS_TIMEOUT_SECONDS))
   \<and> health_check (Some (now - NO_PROGRESS_TIMEOUT_SECONDS)) now last_ok = (True, ''ok'', now)
   \<and> (NO_PROGRESS_TIMEOUT_SECONDS < now - mt
        \<longrightarrow> health_check (Some mt) now last_ok = (False, ''no_new_segments'', last_ok))
   \<and> (child_exit w = None \<and> tick dumps s w = (None, s', w')
        \<longrightarrow> (\<exists>nm st. newest_recording_mtime (disk w) = Inr nm
               \<and> last_published w' = Some st
               \<and> map_of st ''recording''
                   = Some (JBool (\<exists>mt. nm = Some mt
                        \<and> clock w + CHECK_EVERY_SECONDS - mt \<le> NO_PROGRESS_TIMEOUT_SECONDS))
               \<and> map_of st ''reason''
                   = Some (JStr (if \<exists>mt. nm = Some mt
                        \<and> clock w + CHECK_EVERY_SECONDS - mt \<le> NO_PROGRESS_TIMEOUT_SECONDS
                      then ''ok'' else ''no_new_segments''))))"
proof (intro conjI impI)
  show judge: "fst (health_check nm t lo)
      \<longleftrightarrow> (\<exists>mt. nm = Some mt \<and> t - mt \<le> NO_PROGRESS_TIMEOUT_SECONDS)" for nm t lo
    by (cases nm) (simp_all add: health_check_def)
  show "health_check (Some (now - NO_PROGRESS_TIMEOUT_SECONDS)) now last_ok = (True, ''ok'', now)"
    by (simp add: health_check_def)
  show "health_check (Some mt) now last_ok = (False, ''no_new_segments'', last_ok)"
    if "NO_PROGRESS_TIMEOUT_SECONDS < now - mt"
    using that by (simp add: health_check_def)
  assume a: "child_exit w = None \<and> tick dumps s w = (None, s', w')"
  let ?t = "clock w + CHECK_EVERY_SECONDS"
  from tick_alive_success [OF a [THEN conjunct1] a [THEN conjunct2]]
  obtain nm deleted out fs1 folder_bytes fs2 st where
    nm: "newest_recording_mtime (disk w) = Inr nm"
    and run: "enforce_storage_cap (disk w) (bytes_from_gb (real_of_int MAX_STORAGE_GB))
              = Inr (deleted, out, fs1)"
    and st: "st = tick_status (s\<lparr>last_ok_time := snd (snd (health_check nm ?t (last_ok_time s)))\<rparr>)
              (w\<lparr>clock := ?t, disk := fs1, trace := trace w @ map (Pair ?t) out\<rparr>)
              (fst (health_check nm ?t (last_ok_time s)))
              (fst (snd (health_check nm ?t (last_ok_time s))))
              folder_bytes nm ?t (snd (snd (health_check nm ?t (last_ok_time s))))
              (fst (resource_usage w)) (snd (resource_usage w)) deleted"
    and w': "w' = w\<lparr>clock := ?t, disk := fs2,
              trace := trace w @ map (Pair ?t) out @ [(?t, Published st)]\<rparr>"
    by blast
  have "published (map snd (trace w')) = published (map snd (trace w)) @ [st]"
    using published_enforce_log [OF run] by (simp add: w' map_snd_Pair)
  then have last: "last_published w' = Some st"
    by (rule last_published_snoc)
  have reason: "fst (snd (health_check nm ?t (last_ok_time s)))
        = (if \<exists>mt. nm = Some mt \<and> ?t - mt \<le> NO_PROGRESS_TIMEOUT_SECONDS
           then ''ok'' else ''no_new_segments'')"
    by (cases nm) (simp_all add: health_check_def)
  show "\<exists>nm st. newest_recording_mtime (disk w) = Inr nm
               \<and> last_published w' = Some st
               \<and> map_of st ''recording''
                   = Some (JBool (\<exists>mt. nm = Some mt
                        \<and> clock w + CHECK_EVERY_SECONDS - mt \<le> NO_PROGRESS_TIMEOUT_SECONDS))
               \<and> map_of st ''reason''
                   = Some (JStr (if \<exists>mt. nm = Some mt
                        \<and> clock w + CHECK_EVERY_SECONDS - mt \<le> NO_PROGRESS_TIMEOUT_SECONDS
                      then ''ok'' else ''no_new_segments''))"
    using nm last reason judge [of nm ?t "last_ok_time s"]
    by (intro exI [of _ nm] exI [of _ st]) (simp add: st tick_status_lookup)
qed

text \<open>
  The theorem at a segment exactly 45 seconds old when the check runs (healthy) and at
  one 110 seconds old (unhealthy).
\<close>

theorem freshness_boundary_inclusive_witness:
  "NO_PROGRESS_TIMEOUT_SECONDS < 1010 - 900
   \<and> health_check (Some 900) 1010 1000 = (False, ''no_new_segments'', 1000)
   \<and> child_exit boundary_world = None
   \<and> clock boundary_world + CHECK_EVERY_SECONDS - 965 = NO_PROGRESS_TIMEOUT_SECONDS
   \<and> (\<exists>s' w' st. tick key_dumps started boundary_world = (None, s', w')
          \<and> last_published w' = Some st
          \<and> map_of st ''recording'' = Some (JBool True)
          \<and> map_of st ''reason'' = Some (JStr ''ok''))
   \<and> child_exit stale_world = None
   \<and> (\<exists>s' w' st. tick key_dumps started stale_world = (None, s', w')
          \<and> last_published w' = Some st
          \<and> map_of st ''recording'' = Some (JBool False)
          \<and> map_of st ''reason'' = Some (JStr ''no_new_segments''))"
proof -
  have late: "NO_PROGRESS_TIMEOUT_SECONDS < 1010 - 900"
    by (simp add: NO_PROGRESS_TIMEOUT_SECONDS_def)
  have judged: "health_check (Some 900) 1010 1000 = (False, ''no_new_segments'', 1000)"
    by (rule freshness_boundary_inclusive [THEN conjunct2, THEN conjunct2, THEN conjunct1,
          THEN mp, OF late])
  have b_alive: "child_exit boundary_world = None"
    and b_disk: "disk boundary_world = Inr [(''seg1.mp4'', media 965 700)]"
    and b_age: "clock boundary_world + CHECK_EVERY_SECONDS - 965 = NO_PROGRESS_TIMEOUT_SECONDS"
    by (simp_all add: boundary_world_def idle_world_def CHECK_EVERY_SECONDS_def
        NO_PROGRESS_TIMEOUT_SECONDS_def)
  obtain s1 w1 where b_tick: "tick key_dumps started boundary_world = (None, s1, w1)"
    using tick_alive_completes [OF b_alive b_disk list_single sample_io(3)] by blast
  have boundary: "\<exists>s' w' st. tick key_dumps started boundary_world = (None, s', w')
          \<and> last_published w' = Some st
          \<and> map_of st ''recording'' = Some (JBool True)
          \<and> map_of st ''reason'' = Some (JStr ''ok'')"
    using freshness_boundary_inclusive
      [where w = boundary_world and dumps = key_dumps and s = started and s' = s1 and w' = w1,
       THEN conjunct2, THEN conjunct2, THEN conjunct2, THEN mp, OF conjI [OF b_alive b_tick]]
      b_tick b_age
    by (auto simp: b_disk newest_single)
  have s_alive: "child_exit stale_world = None"
    and s_disk: "disk stale_world = Inr [(''seg1.mp4'', media 900 700)]"
    and s_age: "\<not> clock stale_world + CHECK_EVERY_SECONDS - 900 \<le> NO_PROGRESS_TIMEOUT_SECONDS"
    by (simp_all add: stale_world_def idle_world_def CHECK_EVERY_SECONDS_def
        NO_PROGRESS_TIMEOUT_SECONDS_def)
  obtain s2 w2 where s_tick: "tick key_dumps started stale_world = (None, s2, w2)"
    using tick_alive_completes [OF s_alive s_disk list_single sample_io(2)] by blast
  have stale: "\<exists>s' w' st. tick key_dumps started stale_world = (None, s', w')
          \<and> last_published w' = Some st
          \<and> map_of st ''recording'' = Some (JBool False)
          \<and> map_of st ''reason'' = Some (JStr ''no_new_segments'')"
    using freshness_boundary_inclusive
      [where w = stale_world and dumps = key_dumps and s = started and s' = s2 and w' = w2,
       THEN conjunct2, THEN conjunct2, THEN conjunct2, THEN mp, OF conjI [OF s_alive s_tick]]
      s_tick s_age
    by (auto simp: s_disk newest_single)
  from late judged b_alive b_age boundary s_alive stale show ?thesis
    by (intro conjI)
qed

text \<open>
  Claim C4 (exit report and restart backoff). When an iteration finds the child exited
  and the status file can be written (the directory exists and \<^verbatim>\<open>open\<close>, \<^verbatim>\<open>json.dump\<close> and
  \<^verbatim>\<open>os.replace\<close> answer without error), the first thing it does is publish a record with
  \<^verbatim>\<open>recording\<close> false and reason \<^verbatim>\<open>ffmpeg_exited\<close>, at the very time of the detection and
  before any inventory, health check or reclamation, and \<^verbatim>\<open>status.json\<close> holds that record
  afterwards. On every outcome of an iteration that found the child exited, a new child
  is started only after that record has been published and written, and never earlier
  than \<open>RESTART_BACKOFF_SECONDS\<close> after the detection. When the status file cannot be
  written the exception ends \<open>main\<close> at the time of the detection: nothing is published,
  no child is started, and \<^verbatim>\<open>status.json\<close> holds what it held before.
\<close>

theorem exit_report_then_backoff:
  "(child_exit w = Some c \<and> disk w = Inr d \<and> status_io w = working_io
      \<and> tick dumps s w = (err, s', w')
      \<longrightarrow> (\<exists>st rest.
             new_events w w' = (clock w + CHECK_EVERY_SECONDS, Published st) # rest
             \<and> status_file (disk w') = Some st
             \<and> map_of st ''recording'' = Some (JBool False)
             \<and> map_of st ''reason'' = Some (JStr ''ffmpeg_exited'')
             \<and> rest = (case popen_res w of
                         Inl e \<Rightarrow> []
                       | Inr pid \<Rightarrow>
                           [(clock w + CHECK_EVERY_SECONDS + RESTART_BACKOFF_SECONDS,
                             Spawned pid)])
             \<and> err = (case popen_res w of Inl e \<Rightarrow> Some e | Inr pid \<Rightarrow> None)))
   \<and> (child_exit w = Some c \<and> tick dumps s w = (err, s', w')
      \<longrightarrow> (\<forall>t' pid. (t', Spawned pid) \<in> set (new_events w w')
             \<longrightarrow> clock w + CHECK_EVERY_SECONDS + RESTART_BACKOFF_SECONDS \<le> t'
                 \<and> (\<exists>st. new_events w w'
                          = [(clock w + CHECK_EVERY_SECONDS, Published st), (t', Spawned pid)]
                        \<and> status_file (disk w') = Some st
                        \<and> map_of st ''recording'' = Some (JBool False)
                        \<and> map_of st ''reason'' = Some (JStr ''ffmpeg_exited''))))
   \<and> (child_exit w = Some c \<and> disk w = Inl e
      \<longrightarrow> tick dumps s w = (Some e, s, w\<lparr>clock := clock w + CHECK_EVERY_SECONDS\<rparr>))
   \<and> (child_exit w = Some c \<and> tick dumps s w = (err, s', w')
        \<and> (disk w = Inl e \<or> open_raises (status_io w) = Some e
            \<or> dump_raises (status_io w) = Some (e, n) \<or> replace_raises (status_io w) = Some e)
      \<longrightarrow> err \<noteq> None \<and> s' = s \<and> new_events w w' = []
          \<and> clock w' = clock w + CHECK_EVERY_SECONDS
          \<and> status_file (disk w') = status_file (disk w))
   \<and> 0 < RESTART_BACKOFF_SECONDS"
proof (intro conjI impI)
  let ?t = "clock w + CHECK_EVERY_SECONDS"
  let ?st = "exit_status (w\<lparr>clock := ?t\<rparr>)"
  let ?r = "write_status dumps (status_io w) ?t (disk w) ?st"
  show "0 < RESTART_BACKOFF_SECONDS"
    by (simp add: RESTART_BACKOFF_SECONDS_def)
  show "tick dumps s w = (Some e, s, w\<lparr>clock := ?t\<rparr>)"
    if a: "child_exit w = Some c \<and> disk w = Inl e"
  proof -
    have "w\<lparr>clock := ?t, disk := Inl e\<rparr> = w\<lparr>clock := ?t\<rparr>"
      using a by (cases w) simp
    then show ?thesis
      unfolding tick_exited [OF a [THEN conjunct1]] Let_def
      using a by (simp add: write_status_fails)
  qed
  show "\<exists>st rest.
             new_events w w' = (?t, Published st) # rest
             \<and> status_file (disk w') = Some st
             \<and> map_of st ''recording'' = Some (JBool False)
             \<and> map_of st ''reason'' = Some (JStr ''ffmpeg_exited'')
             \<and> rest = (case popen_res w of
                         Inl e \<Rightarrow> []
                       | Inr pid \<Rightarrow> [(?t + RESTART_BACKOFF_SECONDS, Spawned pid)])
             \<and> err = (case popen_res w of Inl e \<Rightarrow> Some e | Inr pid \<Rightarrow> None)"
    if a: "child_exit w = Some c \<and> disk w = Inr d \<and> status_io w = working_io
           \<and> tick dumps s w = (err, s', w')"
  proof -
    obtain d' where wr: "?r = (None, Inr d')"
      using a write_status_ok [of dumps ?t d ?st] by auto
    have written: "status_file (Inr d') = Some ?st"
      using wr by (rule write_status_published)
    have run: "tick dumps s w = (err, s', w')"
      using a by simp
    show ?thesis
    proof (cases "popen_res w")
      case (Inl e)
      then have "err = Some e"
        and "w' = w\<lparr>clock := ?t + RESTART_BACKOFF_SECONDS, disk := Inr d',
                    trace := trace w @ [(?t, Published ?st)]\<rparr>"
        using run unfolding tick_exited [OF a [THEN conjunct1]] Let_def wr by simp_all
      then show ?thesis
        using Inl written by (simp add: new_events_def exit_status_lookup)
    next
      case (Inr pid)
      then have "err = None"
        and "w' = w\<lparr>clock := ?t + RESTART_BACKOFF_SECONDS, disk := Inr d',
                    child_exit := None, child_stderr_tail := [],
                    trace := trace w @ [(?t, Published ?st),
                                        (?t + RESTART_BACKOFF_SECONDS, Spawned pid)]\<rparr>"
        using run unfolding tick_exited [OF a [THEN conjunct1]] Let_def wr by simp_all
      then show ?thesis
        using Inr written by (simp add: new_events_def exit_status_lookup)
    qed
  qed
  show "\<forall>t' pid. (t', Spawned pid) \<in> set (new_events w w')
             \<longrightarrow> ?t + RESTART_BACKOFF_SECONDS \<le> t'
                 \<and> (\<exists>st. new_events w w' = [(?t, Published st), (t', Spawned pid)]
                        \<and> status_file (disk w') = Some st
                        \<and> map_of st ''recording'' = Some (JBool False)
                        \<and> map_of st ''reason'' = Some (JStr ''ffmpeg_exited''))"
    if a: "child_exit w = Some c \<and> tick dumps s w = (err, s', w')"
  proof -
    have shape: "new_events w w' = []
          \<or> new_events w w' = [(?t, Published ?st)]
          \<or> (\<exists>pid. new_events w w'
                = [(?t, Published ?st), (?t + RESTART_BACKOFF_SECONDS, Spawned pid)])"
      using a [THEN conjunct2] unfolding tick_exited [OF a [THEN conjunct1]] Let_def
      by (auto simp: new_events_def split: sum.splits option.splits prod.splits)
    have "status_file (disk w') = Some ?st" if "new_events w w' \<noteq> []"
    proof -
      from tick_exited_outcomes [OF a [THEN conjunct1] a [THEN conjunct2]] that
      have "disk w' = snd ?r" and "fst ?r = None"
        by auto
      then have "?r = (None, disk w')"
        by (simp add: prod_eq_iff)
      then show ?thesis
        by (rule write_status_published)
    qed
    with shape show ?thesis
      by (auto simp: exit_status_lookup)
  qed
  show "err \<noteq> None" "s' = s" "new_events w w' = []" "clock w' = ?t"
    "status_file (disk w') = status_file (disk w)"
    if a: "child_exit w = Some c \<and> tick dumps s w = (err, s', w')
        \<and> (disk w = Inl e \<or> open_raises (status_io w) = Some e
            \<or> dump_raises (status_io w) = Some (e, n) \<or> replace_raises (status_io w) = Some e)"
  proof -
    have "fst ?r \<noteq> None"
      using a unfolding write_status_succeeds_iff by auto
    then obtain e' where fails: "fst ?r = Some e'"
      by auto
    then obtain fs1 where r: "?r = (Some e', fs1)"
      by (cases ?r) simp
    have run: "err = Some e'" "s' = s" "w' = w\<lparr>clock := ?t, disk := fs1\<rparr>"
      using a [THEN conjunct2, THEN conjunct1]
      unfolding tick_exited [OF a [THEN conjunct1]] Let_def r by simp_all
    have kept: "status_file fs1 = status_file (disk w)"
      using write_status_atomic [OF fails] r by simp
    show "err \<noteq> None" "s' = s" "new_events w w' = []" "clock w' = ?t"
      "status_file (disk w') = status_file (disk w)"
      using run kept by (simp_all add: new_events_def)
  qed
qed

text \<open>
  The theorem at a world whose child has exited at clock 1000: the report is published at
  1010 and written, the new child is started at 1015. In the same world without the
  directory, or with a directory that cannot be written, the iteration ends in the
  exception at 1010 and starts no child.
\<close>

theorem exit_report_then_backoff_witness:
  "child_exit crashed_world = Some 1 \<and> disk crashed_world = Inr scenario_six
   \<and> status_io crashed_world = working_io
   \<and> (\<exists>s' w' st. tick key_dumps started crashed_world = (None, s', w')
          \<and> new_events crashed_world w' = [(1010, Published st), (1015, Spawned 4242)]
          \<and> status_file (disk w') = Some st
          \<and> map_of st ''recording'' = Some (JBool False)
          \<and> map_of st ''reason'' = Some (JStr ''ffmpeg_exited'')
          \<and> (1015, Spawned 4242) \<in> set (new_events crashed_world w')
          \<and> clock crashed_world + CHECK_EVERY_SECONDS + RESTART_BACKOFF_SECONDS \<le> 1015)
   \<and> tick key_dumps started (crashed_world\<lparr>disk := Inl FileNotFoundError\<rparr>)
       = (Some FileNotFoundError, started,
          crashed_world\<lparr>disk := Inl FileNotFoundError, clock := 1010\<rparr>)
   \<and> open_raises (status_io (crashed_world\<lparr>status_io := unwritable_io\<rparr>)) = Some PermissionError
   \<and> (\<exists>err s' w'. tick key_dumps started (crashed_world\<lparr>status_io := unwritable_io\<rparr>)
                     = (err, s', w')
          \<and> err \<noteq> None \<and> s' = started
          \<and> new_events (crashed_world\<lparr>status_io := unwritable_io\<rparr>) w' = []
          \<and> clock w' = 1010
          \<and> status_file (disk w') = None)"
proof -
  obtain err s' w' where run: "tick key_dumps started crashed_world = (err, s', w')"
    by (cases "tick key_dumps started crashed_world")
  note a = conjI [OF crashed_world_simps(1) conjI [OF crashed_world_simps(2)
                  conjI [OF crashed_world_simps(7) run]]]
  from exit_report_then_backoff [where w = crashed_world and dumps = key_dumps and s = started,
      THEN conjunct1, THEN mp, OF a]
  obtain st where ev: "new_events crashed_world w' = [(1010, Published st), (1015, Spawned 4242)]"
    and st: "map_of st ''recording'' = Some (JBool False)"
      "map_of st ''reason'' = Some (JStr ''ffmpeg_exited'')"
    and written: "status_file (disk w') = Some st"
    and err: "err = None"
    by (auto simp: crashed_world_simps CHECK_EVERY_SECONDS_def RESTART_BACKOFF_SECONDS_def)
  have spawned: "(1015, Spawned 4242) \<in> set (new_events crashed_world w')"
    by (simp add: ev)
  note b = conjI [OF crashed_world_simps(1) run]
  from exit_report_then_backoff [where w = crashed_world and dumps = key_dumps and s = started,
      THEN conjunct2, THEN conjunct1, THEN mp, OF b, rule_format, OF spawned]
  have late: "clock crashed_world + CHECK_EVERY_SECONDS + RESTART_BACKOFF_SECONDS \<le> 1015"
    by simp
  have first: "\<exists>s' w' st. tick key_dumps started crashed_world = (None, s', w')
          \<and> new_events crashed_world w' = [(1010, Published st), (1015, Spawned 4242)]
          \<and> status_file (disk w') = Some st
          \<and> map_of st ''recording'' = Some (JBool False)
          \<and> map_of st ''reason'' = Some (JStr ''ffmpeg_exited'')
          \<and> (1015, Spawned 4242) \<in> set (new_events crashed_world w')
          \<and> clock crashed_world + CHECK_EVERY_SECONDS + RESTART_BACKOFF_SECONDS \<le> 1015"
    using run err ev written st spawned late by blast
  have c: "child_exit (crashed_world\<lparr>disk := Inl FileNotFoundError\<rparr>) = Some 1
           \<and> disk (crashed_world\<lparr>disk := Inl FileNotFoundError\<rparr>) = Inl FileNotFoundError"
    by (simp add: crashed_world_simps)
  from exit_report_then_backoff
    [where w = "crashed_world\<lparr>disk := Inl FileNotFoundError\<rparr>" and dumps = key_dumps and s = started,
     THEN conjunct2, THEN conjunct2, THEN conjunct1, THEN mp, OF c]
  have fatal: "tick key_dumps started (crashed_world\<lparr>disk := Inl FileNotFoundError\<rparr>)
       = (Some FileNotFoundError, started,
          crashed_world\<lparr>disk := Inl FileNotFoundError, clock := 1010\<rparr>)"
    by (simp add: crashed_world_simps CHECK_EVERY_SECONDS_def)
  let ?u = "crashed_world\<lparr>status_io := unwritable_io\<rparr>"
  have locked: "open_raises (status_io ?u) = Some PermissionError"
    by (simp add: unwritable_io_def)
  obtain err2 s2 w2 where run2: "tick key_dumps started ?u = (err2, s2, w2)"
    by (cases "tick key_dumps started ?u")
  have d: "child_exit ?u = Some 1 \<and> tick key_dumps started ?u = (err2, s2, w2)
           \<and> (disk ?u = Inl PermissionError \<or> open_raises (status_io ?u) = Some PermissionError
               \<or> dump_raises (status_io ?u) = Some (PermissionError, 0)
               \<or> replace_raises (status_io ?u) = Some PermissionError)"
    using run2 locked by (simp add: crashed_world_simps)
  from exit_report_then_backoff
    [where w = ?u and dumps = key_dumps and s = started and e = PermissionError and n = 0,
     THEN conjunct2, THEN conjunct2, THEN conjunct2, THEN conjunct1, THEN mp, OF d]
  have "err2 \<noteq> None \<and> s2 = started \<and> new_events ?u w2 = [] \<and> clock w2 = 1010
        \<and> status_file (disk w2) = None"
    by (simp add: crashed_world_simps CHECK_EVERY_SECONDS_def status_file_def scenario_six_def
        scenario_five_def)
  with run2 have second: "\<exists>err s' w'. tick key_dumps started ?u = (err, s', w')
          \<and> err \<noteq> None \<and> s' = started \<and> new_events ?u w' = [] \<and> clock w' = 1010
          \<and> status_file (disk w') = None"
    by blast
  from crashed_world_simps(1,2,7) first fatal locked second show ?thesis
    by (intro conjI)
qed

text \<open>
  Claim C6 (seconds since last healthy). Take two consecutive completed iterations that
  both publish reason \<^verbatim>\<open>no_new_segments\<close>, whatever happens to the world in between as
  long as the clock does not run backwards. Then the child was alive at both, neither
  changed the last healthy time, and the published \<^verbatim>\<open>seconds_since_last_ok\<close> of the second
  is strictly greater than that of the first.
\<close>

theorem stale_seconds_grow:
  assumes first: "tick dumps s w = (None, s1, w1)"
    and pub1: "last_published w1 = Some st1"
    and stale1: "map_of st1 ''reason'' = Some (JStr ''no_new_segments'')"
    and later: "clock w1 \<le> clock w2"
    and second: "tick dumps s1 w2 = (None, s2, w2')"
    and pub2: "last_published w2' = Some st2"
    and stale2: "map_of st2 ''reason'' = Some (JStr ''no_new_segments'')"
  shows "child_exit w = None \<and> child_exit w2 = None
         \<and> last_ok_time s1 = last_ok_time s \<and> last_ok_time s2 = last_ok_time s
         \<and> (\<exists>a b. map_of st1 ''seconds_since_last_ok'' = Some (JFloat a)
                \<and> map_of st2 ''seconds_since_last_ok'' = Some (JFloat b)
                \<and> a < b)"
proof -
  let ?a = "py_round1 (clock w + CHECK_EVERY_SECONDS - last_ok_time s)"
  let ?b = "py_round1 (clock w2 + CHECK_EVERY_SECONDS - last_ok_time s)"
  from tick_unhealthy_report [OF first pub1 stale1]
  have one: "child_exit w = None" "last_ok_time s1 = last_ok_time s"
    "clock w1 = clock w + CHECK_EVERY_SECONDS"
    "map_of st1 ''seconds_since_last_ok'' = Some (JFloat ?a)"
    by simp_all
  from tick_unhealthy_report [OF second pub2 stale2]
  have two: "child_exit w2 = None" "last_ok_time s2 = last_ok_time s"
    "map_of st2 ''seconds_since_last_ok'' = Some (JFloat ?b)"
    by (simp_all add: one)
  have "clock w + CHECK_EVERY_SECONDS - last_ok_time s + 10
        \<le> clock w2 + CHECK_EVERY_SECONDS - last_ok_time s"
    using later one(3) by (simp add: CHECK_EVERY_SECONDS_def)
  then have "?a < ?b"
    by (rule py_round1_gap)
  with one two show ?thesis
    by blast
qed

text \<open>
  The theorem at two iterations in a row over a segment last touched at 900, the clock
  starting at 1000: 10 seconds, then 20.
\<close>

theorem stale_seconds_grow_witness:
  "\<exists>s1 w1 st1 s2 w2 st2.
      tick key_dumps started stale_world = (None, s1, w1)
      \<and> last_published w1 = Some st1
      \<and> map_of st1 ''reason'' = Some (JStr ''no_new_segments'')
      \<and> clock w1 \<le> clock w1
      \<and> tick key_dumps s1 w1 = (None, s2, w2)
      \<and> last_published w2 = Some st2
      \<and> map_of st2 ''reason'' = Some (JStr ''no_new_segments'')
      \<and> last_ok_time s1 = 1000 \<and> last_ok_time s2 = 1000
      \<and> map_of st1 ''seconds_since_last_ok'' = Some (JFloat 10)
      \<and> map_of st2 ''seconds_since_last_ok'' = Some (JFloat 20)"
proof -
  have alive: "child_exit stale_world = None"
    and disk: "disk stale_world = Inr [(''seg1.mp4'', media 900 700)]"
    and clock: "clock stale_world = 1000"
    by (simp_all add: stale_world_def idle_world_def)
  have small: "total_size [(''seg1.mp4'', 900, 700)] \<le> bytes_from_gb (real_of_int MAX_STORAGE_GB)"
    by (simp add: total_size_def cap_value)
  have h1: "fst (snd (health_check (Some 900) (1000 + CHECK_EVERY_SECONDS) lo)) = ''no_new_segments''"
    for lo
    by (simp add: health_check_def CHECK_EVERY_SECONDS_def NO_PROGRESS_TIMEOUT_SECONDS_def)
  from tick_alive_under_cap [OF alive disk list_single small sample_io(2), of key_dumps started]
  obtain s1 w1 st1 d1 where
    t1: "tick key_dumps started stale_world = (None, s1, w1)"
    and p1: "last_published w1 = Some st1"
    and r1: "map_of st1 ''reason'' = Some (JStr ''no_new_segments'')"
    and a1: "child_exit w1 = None" and c1: "clock w1 = 1000 + CHECK_EVERY_SECONDS"
    and d1: "disk w1 = Inr d1" and l1: "list_recording_files (Inr d1) = Inr [(''seg1.mp4'', 900, 700)]"
    and io1: "status_io w1 = working_io"
    by (auto simp: clock h1)
  from tick_alive_under_cap [OF a1 d1 l1 small io1, of key_dumps s1]
  obtain s2 w2 st2 where
    t2: "tick key_dumps s1 w1 = (None, s2, w2)"
    and p2: "last_published w2 = Some st2"
    and r2: "map_of st2 ''reason'' = Some (JStr ''no_new_segments'')"
    by (auto simp: c1 health_check_def CHECK_EVERY_SECONDS_def NO_PROGRESS_TIMEOUT_SECONDS_def)
  have same: "clock w1 \<le> clock w1" by simp
  from stale_seconds_grow [OF t1 p1 r1 same t2 p2 r2]
  have keep: "last_ok_time s1 = last_ok_time started" "last_ok_time s2 = last_ok_time started"
    by simp_all
  from tick_unhealthy_report [OF t1 p1 r1]
  have v1: "map_of st1 ''seconds_since_last_ok'' = Some (JFloat 10)"
    by (simp add: clock started_def CHECK_EVERY_SECONDS_def py_round1_def round_half_even_def)
  from tick_unhealthy_report [OF t2 p2 r2]
  have v2: "map_of st2 ''seconds_since_last_ok'' = Some (JFloat 20)"
    by (simp add: c1 keep started_def CHECK_EVERY_SECONDS_def py_round1_def round_half_even_def)
  from t1 p1 r1 same t2 p2 r2 keep v1 v2 show ?thesis
    by (auto simp: started_def)
qed

text \<open>
  Claim C2 (fields of the published record), as the program has it. A record published
  by an iteration with a live child has the ten fields of the specification and four
  more (\<^verbatim>\<open>rtsp_transport\<close>, \<^verbatim>\<open>segment_seconds\<close>, \<^verbatim>\<open>max_storage_gb\<close>, \<^verbatim>\<open>output_dir\<close>); a CPU or
  memory figure that could not be read is written as null, not left out, and
  \<^verbatim>\<open>newest_segment_mtime\<close> is the newest modification time of the inventory the iteration
  found, or null when that inventory was empty. The record published when the child is
  found dead has exactly five fields: \<^verbatim>\<open>recording\<close> (false), \<^verbatim>\<open>reason\<close> (\<^verbatim>\<open>ffmpeg_exited\<close>),
  \<^verbatim>\<open>timestamp\<close>, \<^verbatim>\<open>ffmpeg_pid\<close> (null) and \<^verbatim>\<open>ffmpeg_stderr_tail\<close>.
\<close>

theorem published_record_fields:
  "(child_exit w = None \<and> tick dumps s w = (err, s', w')
      \<and> st \<in> set (published (map snd (new_events w w')))
      \<longrightarrow> map fst st
            = [''recording'', ''reason'', ''timestamp'', ''rtsp_transport'', ''segment_seconds'',
               ''max_storage_gb'', ''output_dir'', ''folder_size_bytes'', ''newest_segment_mtime'',
               ''seconds_since_last_ok'', ''ffmpeg_pid'', ''ffmpeg_cpu_percent'', ''ffmpeg_mem_mb'',
               ''deleted_files_this_check'']
          \<and> set status_record_fields \<subseteq> set (map fst st)
          \<and> map_of st ''ffmpeg_cpu_percent''
              = Some (case fst (resource_usage w) of None \<Rightarrow> JNull | Some x \<Rightarrow> JFloat x)
          \<and> map_of st ''ffmpeg_mem_mb''
              = Some (case snd (resource_usage w) of None \<Rightarrow> JNull | Some x \<Rightarrow> JFloat x)
          \<and> (\<exists>newest. newest_recording_mtime (disk w) = Inr newest
                \<and> map_of st ''newest_segment_mtime''
                    = Some (case newest of None \<Rightarrow> JNull | Some x \<Rightarrow> JFloat x)))
   \<and> (child_exit w = Some c \<and> tick dumps s w = (err, s', w')
      \<and> st \<in> set (published (map snd (new_events w w')))
      \<longrightarrow> map fst st
            = [''recording'', ''reason'', ''timestamp'', ''ffmpeg_pid'', ''ffmpeg_stderr_tail'']
          \<and> map_of st ''ffmpeg_pid'' = Some JNull
          \<and> map_of st ''recording'' = Some (JBool False)
          \<and> map_of st ''reason'' = Some (JStr ''ffmpeg_exited''))"
proof (intro conjI impI)
  assume a: "child_exit w = None \<and> tick dumps s w = (err, s', w')
      \<and> st \<in> set (published (map snd (new_events w w')))"
  from tick_alive_outcomes [OF a [THEN conjunct1] a [THEN conjunct2, THEN conjunct1]
      a [THEN conjunct2, THEN conjunct2]]
  obtain s1 w1 healthy reason folder_bytes newest now last_ok deleted where
    newest: "newest_recording_mtime (disk w) = Inr newest"
    and st: "st = tick_status s1 w1 healthy reason folder_bytes newest now last_ok
                  (fst (resource_usage w)) (snd (resource_usage w)) deleted"
    by blast
  show "map fst st
            = [''recording'', ''reason'', ''timestamp'', ''rtsp_transport'', ''segment_seconds'',
               ''max_storage_gb'', ''output_dir'', ''folder_size_bytes'', ''newest_segment_mtime'',
               ''seconds_since_last_ok'', ''ffmpeg_pid'', ''ffmpeg_cpu_percent'', ''ffmpeg_mem_mb'',
               ''deleted_files_this_check'']"
    by (simp add: st tick_status_keys)
  then show "set status_record_fields \<subseteq> set (map fst st)"
    by (simp add: status_record_fields_def)
  show "map_of st ''ffmpeg_cpu_percent''
              = Some (case fst (resource_usage w) of None \<Rightarrow> JNull | Some x \<Rightarrow> JFloat x)"
    by (simp add: st tick_status_lookup json_opt_def)
  show "map_of st ''ffmpeg_mem_mb''
              = Some (case snd (resource_usage w) of None \<Rightarrow> JNull | Some x \<Rightarrow> JFloat x)"
    by (simp add: st tick_status_lookup json_opt_def)
  show "\<exists>newest. newest_recording_mtime (disk w) = Inr newest
                \<and> map_of st ''newest_segment_mtime''
                    = Some (case newest of None \<Rightarrow> JNull | Some x \<Rightarrow> JFloat x)"
    by (rule exI [of _ newest]) (simp add: newest st tick_status_lookup json_opt_def)
next
  assume a: "child_exit w = Some c \<and> tick dumps s w = (err, s', w')
      \<and> st \<in> set (published (map snd (new_events w w')))"
  from tick_exited_outcomes [OF a [THEN conjunct1] a [THEN conjunct2, THEN conjunct1]]
    a [THEN conjunct2, THEN conjunct2]
  have st: "st = exit_status (w\<lparr>clock := clock w + CHECK_EVERY_SECONDS\<rparr>)"
    by auto
  show "map fst st
            = [''recording'', ''reason'', ''timestamp'', ''ffmpeg_pid'', ''ffmpeg_stderr_tail'']"
    "map_of st ''ffmpeg_pid'' = Some JNull"
    "map_of st ''recording'' = Some (JBool False)"
    "map_of st ''reason'' = Some (JStr ''ffmpeg_exited'')"
    by (simp_all add: st exit_status_lookup)
qed

text \<open>
  Claim C2 as stated fails: the record published for a dead child has no
  \<^verbatim>\<open>folder_size_bytes\<close>, which the specification lists, and has \<^verbatim>\<open>ffmpeg_stderr_tail\<close>, which
  it does not.
\<close>

theorem published_record_fields_counterexample:
  "fst (tick key_dumps started crashed_world) = None
   \<and> map (map fst) (published (map snd
         (new_events crashed_world (snd (snd (tick key_dumps started crashed_world))))))
       = [[''recording'', ''reason'', ''timestamp'', ''ffmpeg_pid'', ''ffmpeg_stderr_tail'']]
   \<and> ''folder_size_bytes'' \<in> set status_record_fields
   \<and> ''folder_size_bytes''
       \<notin> set [''recording'', ''reason'', ''timestamp'', ''ffmpeg_pid'', ''ffmpeg_stderr_tail'']
   \<and> ''ffmpeg_stderr_tail'' \<notin> set status_record_fields"
proof -
  from tick_exited_restarts [OF crashed_world_simps(1,2,4,7),
      of key_dumps started]
  obtain s' w' where run: "tick key_dumps started crashed_world = (None, s', w')"
    and ev: "published (map snd (new_events crashed_world w'))
             = [exit_status (crashed_world\<lparr>clock := clock crashed_world + CHECK_EVERY_SECONDS\<rparr>)]"
    by auto
  show ?thesis
    by (simp add: run ev exit_status_lookup status_record_fields_def)
qed

text \<open>The theorem at the idle world (no figures from \<^verbatim>\<open>psutil\<close>) and at the crashed world.\<close>

theorem published_record_fields_witness:
  "child_exit idle_world = None
   \<and> (\<exists>s' w' st. tick key_dumps started idle_world = (None, s', w')
          \<and> st \<in> set (published (map snd (new_events idle_world w')))
          \<and> set status_record_fields \<subseteq> set (map fst st)
          \<and> map_of st ''ffmpeg_cpu_percent'' = Some JNull
          \<and> map_of st ''ffmpeg_mem_mb'' = Some JNull
          \<and> map_of st ''newest_segment_mtime'' = Some JNull)
   \<and> child_exit crashed_world = Some 1
   \<and> (\<exists>s' w' st. tick key_dumps started crashed_world = (None, s', w')
          \<and> st \<in> set (published (map snd (new_events crashed_world w')))
          \<and> map fst st
              = [''recording'', ''reason'', ''timestamp'', ''ffmpeg_pid'', ''ffmpeg_stderr_tail'']
          \<and> map_of st ''ffmpeg_pid'' = Some JNull)"
proof -
  have alive: "child_exit idle_world = None" and disk: "disk idle_world = Inr []"
    and usage: "resource_usage idle_world = (None, None)"
    by (simp_all add: idle_world_def resource_usage_def)
  have small: "total_size [] \<le> bytes_from_gb (real_of_int MAX_STORAGE_GB)"
    by (simp add: total_size_def cap_value)
  from tick_alive_under_cap [OF alive disk empty_inventory(2) small sample_io(1),
      of key_dumps started]
  obtain s1 w1 st1 where run1: "tick key_dumps started idle_world = (None, s1, w1)"
    and pub1: "st1 \<in> set (published (map snd (new_events idle_world w1)))"
    by auto
  have none: "newest_recording_mtime (disk idle_world) = Inr None"
    by (simp add: disk newest_recording_mtime_def empty_inventory)
  note r1 = published_record_fields
    [where w = idle_world and dumps = key_dumps and s = started and err = None and s' = s1
       and w' = w1 and st = st1, THEN conjunct1, THEN mp, OF conjI [OF alive conjI [OF run1 pub1]]]
  have one: "set status_record_fields \<subseteq> set (map fst st1)"
    "map_of st1 ''ffmpeg_cpu_percent'' = Some JNull"
    "map_of st1 ''ffmpeg_mem_mb'' = Some JNull"
    using r1 [THEN conjunct2, THEN conjunct1]
      r1 [THEN conjunct2, THEN conjunct2, THEN conjunct1]
      r1 [THEN conjunct2, THEN conjunct2, THEN conjunct2, THEN conjunct1]
    by (simp_all only: usage fst_conv snd_conv option.case)
  have null: "map_of st1 ''newest_segment_mtime'' = Some JNull"
    using r1 [THEN conjunct2, THEN conjunct2, THEN conjunct2, THEN conjunct2] none
    by auto
  from tick_exited_restarts [OF crashed_world_simps(1,2,4,7),
      of key_dumps started]
  obtain s2 w2 st2 where run2: "tick key_dumps started crashed_world = (None, s2, w2)"
    and pub2: "st2 \<in> set (published (map snd (new_events crashed_world w2)))"
    by auto
  from published_record_fields
    [where w = crashed_world and dumps = key_dumps and s = started and err = None and s' = s2
       and w' = w2 and st = st2 and c = 1, THEN conjunct2, THEN mp,
     OF conjI [OF crashed_world_simps(1) conjI [OF run2 pub2]]]
  have two: "map fst st2
              = [''recording'', ''reason'', ''timestamp'', ''ffmpeg_pid'', ''ffmpeg_stderr_tail'']"
    "map_of st2 ''ffmpeg_pid'' = Some JNull"
    by simp_all
  have first: "\<exists>s' w' st. tick key_dumps started idle_world = (None, s', w')
          \<and> st \<in> set (published (map snd (new_events idle_world w')))
          \<and> set status_record_fields \<subseteq> set (map fst st)
          \<and> map_of st ''ffmpeg_cpu_percent'' = Some JNull
          \<and> map_of st ''ffmpeg_mem_mb'' = Some JNull
          \<and> map_of st ''newest_segment_mtime'' = Some JNull"
    by (rule exI [of _ s1], rule exI [of _ w1], rule exI [of _ st1])
       (intro conjI run1 pub1 one null)
  have second: "\<exists>s' w' st. tick key_dumps started crashed_world = (None, s', w')
          \<and> st \<in> set (published (map snd (new_events crashed_world w')))
          \<and> map fst st
              = [''recording'', ''reason'', ''timestamp'', ''ffmpeg_pid'', ''ffmpeg_stderr_tail'']
          \<and> map_of st ''ffmpeg_pid'' = Some JNull"
    by (rule exI [of _ s2], rule exI [of _ w2], rule exI [of _ st2]) (intro conjI run2 pub2 two)
  show ?thesis
    by (intro conjI alive first crashed_world_simps(1) second)
qed

text \<open>
  Claim C3 (publication after reclamation), as the program has it. The record an
  iteration with a live child publishes comes after that iteration's own reclamation
  pass: the events of the pass precede the publication, the deletion count in the
  record is the count of that pass, the folder size in it is the size of the directory
  the pass left, and the directory still has exactly those segments when the record is
  written. An iteration with a live child that ends in an exception publishes nothing.
  The report of a dead child is published without any reclamation pass: nothing is
  removed, the segments stay as they were, and the record has neither a folder size nor
  a deletion count.
\<close>

theorem publication_after_reclaim:
  "(child_exit w = None \<and> tick dumps s w = (None, s', w')
      \<longrightarrow> (\<exists>deleted out fs1 folder_bytes st.
             enforce_storage_cap (disk w) (bytes_from_gb (real_of_int MAX_STORAGE_GB))
               = Inr (deleted, out, fs1)
             \<and> folder_size_bytes fs1 = Inr folder_bytes
             \<and> new_events w w'
                 = map (Pair (clock w + CHECK_EVERY_SECONDS)) out
                   @ [(clock w + CHECK_EVERY_SECONDS, Published st)]
             \<and> published out = []
             \<and> map_of st ''deleted_files_this_check'' = Some (JInt (int deleted))
             \<and> map_of st ''folder_size_bytes'' = Some (JInt folder_bytes)
             \<and> list_recording_files (disk w') = list_recording_files fs1
             \<and> folder_size_bytes (disk w') = Inr folder_bytes))
   \<and> (child_exit w = None \<and> tick dumps s w = (Some e, s', w')
      \<longrightarrow> published (map snd (new_events w w')) = [])
   \<and> (child_exit w = Some c \<and> tick dumps s w = (err, s', w')
      \<longrightarrow> deleted_paths (map snd (new_events w w')) = []
          \<and> list_recording_files (disk w') = list_recording_files (disk w)
          \<and> (\<forall>st \<in> set (published (map snd (new_events w w'))).
                map_of st ''folder_size_bytes'' = None
                \<and> map_of st ''deleted_files_this_check'' = None))"
proof (intro conjI impI)
  assume a: "child_exit w = None \<and> tick dumps s w = (None, s', w')"
  let ?t = "clock w + CHECK_EVERY_SECONDS"
  from tick_alive_success [OF a [THEN conjunct1] a [THEN conjunct2]]
  obtain nm deleted out fs1 folder_bytes fs2 st where
    run: "enforce_storage_cap (disk w) (bytes_from_gb (real_of_int MAX_STORAGE_GB))
              = Inr (deleted, out, fs1)"
    and size: "folder_size_bytes fs1 = Inr folder_bytes"
    and st: "st = tick_status (s\<lparr>last_ok_time := snd (snd (health_check nm ?t (last_ok_time s)))\<rparr>)
              (w\<lparr>clock := ?t, disk := fs1, trace := trace w @ map (Pair ?t) out\<rparr>)
              (fst (health_check nm ?t (last_ok_time s)))
              (fst (snd (health_check nm ?t (last_ok_time s))))
              folder_bytes nm ?t (snd (snd (health_check nm ?t (last_ok_time s))))
              (fst (resource_usage w)) (snd (resource_usage w)) deleted"
    and wr: "write_status dumps (status_io w) ?t fs1 st = (None, fs2)"
    and w': "w' = w\<lparr>clock := ?t, disk := fs2,
              trace := trace w @ map (Pair ?t) out @ [(?t, Published st)]\<rparr>"
    by blast
  have same: "list_recording_files (disk w') = list_recording_files fs1"
    using write_status_segments [of dumps "status_io w" ?t fs1 st] wr by (simp add: w')
  then have "folder_size_bytes (disk w') = Inr folder_bytes"
    using size by (simp add: folder_size_bytes_def)
  moreover have "new_events w w' = map (Pair ?t) out @ [(?t, Published st)]"
    by (simp add: new_events_def w')
  moreover have "map_of st ''deleted_files_this_check'' = Some (JInt (int deleted))"
    "map_of st ''folder_size_bytes'' = Some (JInt folder_bytes)"
    by (simp_all add: st tick_status_lookup)
  ultimately show "\<exists>deleted out fs1 folder_bytes st.
             enforce_storage_cap (disk w) (bytes_from_gb (real_of_int MAX_STORAGE_GB))
               = Inr (deleted, out, fs1)
             \<and> folder_size_bytes fs1 = Inr folder_bytes
             \<and> new_events w w' = map (Pair ?t) out @ [(?t, Published st)]
             \<and> published out = []
             \<and> map_of st ''deleted_files_this_check'' = Some (JInt (int deleted))
             \<and> map_of st ''folder_size_bytes'' = Some (JInt folder_bytes)
             \<and> list_recording_files (disk w') = list_recording_files fs1
             \<and> folder_size_bytes (disk w') = Inr folder_bytes"
    using run size same published_enforce_log [OF run] by blast
next
  assume a: "child_exit w = None \<and> tick dumps s w = (Some e, s', w')"
  have quiet: "published (map (snd \<circ> Pair t) out) = []"
    if "enforce_storage_cap fs cap = Inr (k, out, fs1)" for t out fs cap k fs1
    using published_enforce_log [OF that] by (simp add: map_snd_Pair)
  show "published (map snd (new_events w w')) = []"
    using a [THEN conjunct2] unfolding tick_alive [OF a [THEN conjunct1]] Let_def
    by (auto simp: new_events_def quiet split: sum.splits prod.splits option.splits)
next
  assume a: "child_exit w = Some c \<and> tick dumps s w = (err, s', w')"
  let ?t = "clock w + CHECK_EVERY_SECONDS"
  let ?st = "exit_status (w\<lparr>clock := ?t\<rparr>)"
  note outcomes = tick_exited_outcomes [OF a [THEN conjunct1] a [THEN conjunct2]]
  have segments: "list_recording_files (disk w') = list_recording_files (disk w)"
    using outcomes [THEN conjunct1] write_status_segments [of dumps "status_io w" ?t "disk w" ?st]
    by simp
  from outcomes [THEN conjunct2]
  consider "new_events w w' = []"
    | rest where "new_events w w' = (?t, Published ?st) # rest"
      "published (map snd rest) = []" "deleted_paths (map snd rest) = []"
    by blast
  then have "deleted_paths (map snd (new_events w w')) = []
          \<and> list_recording_files (disk w') = list_recording_files (disk w)
          \<and> (\<forall>st \<in> set (published (map snd (new_events w w'))).
                map_of st ''folder_size_bytes'' = None
                \<and> map_of st ''deleted_files_this_check'' = None)"
  proof cases
    case 1
    then show ?thesis using segments by simp
  next
    case 2
    then show ?thesis
      using segments by (simp add: exit_status_lookup)
  qed
  then show "deleted_paths (map snd (new_events w w')) = []"
    "list_recording_files (disk w') = list_recording_files (disk w)"
    "\<forall>st \<in> set (published (map snd (new_events w w'))).
                map_of st ''folder_size_bytes'' = None
                \<and> map_of st ''deleted_files_this_check'' = None"
    by simp_all
qed

text \<open>
  Claim C3 as stated fails: with the child dead and 12 GB in the directory, a record is
  published and no file is removed; the directory still holds 12 GB against a cap of
  10 GB, where a reclamation pass would have removed the oldest segment.
\<close>

theorem publication_after_reclaim_counterexample:
  "fst (tick key_dumps started crashed_world) = None
   \<and> published (map snd
        (new_events crashed_world (snd (snd (tick key_dumps started crashed_world)))))
       = [exit_status (crashed_world\<lparr>clock := 1010\<rparr>)]
   \<and> deleted_paths (map snd
        (new_events crashed_world (snd (snd (tick key_dumps started crashed_world))))) = []
   \<and> map_of (exit_status (crashed_world\<lparr>clock := 1010\<rparr>)) ''folder_size_bytes'' = None
   \<and> map_of (exit_status (crashed_world\<lparr>clock := 1010\<rparr>)) ''deleted_files_this_check'' = None
   \<and> folder_size_bytes (disk (snd (snd (tick key_dumps started crashed_world))))
       = Inr 12884901888
   \<and> bytes_from_gb (real_of_int MAX_STORAGE_GB) = 10737418240
   \<and> enforce_storage_cap (disk crashed_world) (bytes_from_gb (real_of_int MAX_STORAGE_GB))
       = Inr (1, [Deleted ''seg1.mp4''], Inr (butlast scenario_six))"
proof -
  from tick_exited_restarts [OF crashed_world_simps(1,2,4,7),
      of key_dumps started]
  obtain s' w' where run: "tick key_dumps started crashed_world = (None, s', w')"
    and ev: "new_events crashed_world w'
             = [(1010, Published (exit_status (crashed_world\<lparr>clock := 1010\<rparr>))),
                (1010 + RESTART_BACKOFF_SECONDS, Spawned 4242)]"
    and same: "list_recording_files (disk w') = list_recording_files (Inr scenario_six)"
    by (auto simp: crashed_world_simps CHECK_EVERY_SECONDS_def)
  have "folder_size_bytes (disk w') = Inr 12884901888"
    using same size_six by (simp add: folder_size_bytes_def)
  then show ?thesis
    by (simp add: run ev exit_status_lookup cap_value crashed_world_simps run_six_cap [simplified cap_value])
qed

text \<open>
  The theorem at a live child with 12 GB in the directory (one file removed, then the
  record with count 1 and 10 GB), at the crashed world, and at a live child whose output
  directory is gone (the iteration ends in an exception and publishes nothing).
\<close>

theorem publication_after_reclaim_witness:
  "child_exit full_world = None
   \<and> (\<exists>s' w' st. tick key_dumps started full_world = (None, s', w')
          \<and> new_events full_world w' = [(1010, Deleted ''seg1.mp4''), (1010, Published st)]
          \<and> map_of st ''deleted_files_this_check'' = Some (JInt 1)
          \<and> map_of st ''folder_size_bytes'' = Some (JInt 10737418240)
          \<and> folder_size_bytes (disk w') = Inr 10737418240)
   \<and> child_exit crashed_world = Some 1
   \<and> (\<exists>s' w'. tick key_dumps started crashed_world = (None, s', w')
          \<and> deleted_paths (map snd (new_events crashed_world w')) = []
          \<and> list_recording_files (disk w') = list_recording_files (disk crashed_world))
   \<and> child_exit (idle_world\<lparr>disk := Inl FileNotFoundError\<rparr>) = None
   \<and> tick key_dumps started (idle_world\<lparr>disk := Inl FileNotFoundError\<rparr>)
       = (Some FileNotFoundError, started,
          idle_world\<lparr>disk := Inl FileNotFoundError, clock := 1010\<rparr>)
   \<and> published (map snd (new_events (idle_world\<lparr>disk := Inl FileNotFoundError\<rparr>)
         (idle_world\<lparr>disk := Inl FileNotFoundError, clock := 1010\<rparr>))) = []"
proof -
  have alive: "child_exit full_world = None" and disk: "disk full_world = Inr scenario_six"
    and clock: "clock full_world + CHECK_EVERY_SECONDS = 1010"
    by (simp_all add: full_world_def idle_world_def CHECK_EVERY_SECONDS_def)
  obtain s1 w1 where run1: "tick key_dumps started full_world = (None, s1, w1)"
    using tick_alive_completes [OF alive disk list_six sample_io(4)] by blast
  from publication_after_reclaim
    [where w = full_world and dumps = key_dumps and s = started and s' = s1 and w' = w1,
     THEN conjunct1, THEN mp, OF conjI [OF alive run1]]
  obtain st where "new_events full_world w1 = [(1010, Deleted ''seg1.mp4''), (1010, Published st)]"
    "map_of st ''deleted_files_this_check'' = Some (JInt 1)"
    "map_of st ''folder_size_bytes'' = Some (JInt 10737418240)"
    "folder_size_bytes (disk w1) = Inr 10737418240"
    unfolding disk run_six_cap clock
    by (auto simp: size_after_six)
  with run1 have first: "\<exists>s' w' st. tick key_dumps started full_world = (None, s', w')
          \<and> new_events full_world w' = [(1010, Deleted ''seg1.mp4''), (1010, Published st)]
          \<and> map_of st ''deleted_files_this_check'' = Some (JInt 1)
          \<and> map_of st ''folder_size_bytes'' = Some (JInt 10737418240)
          \<and> folder_size_bytes (disk w') = Inr 10737418240"
    by blast
  from tick_exited_restarts [OF crashed_world_simps(1,2,4,7),
      of key_dumps started]
  obtain s2 w2 where run2: "tick key_dumps started crashed_world = (None, s2, w2)"
    by auto
  note r2 = publication_after_reclaim
    [where w = crashed_world and dumps = key_dumps and s = started and s' = s2 and w' = w2
       and err = None and c = 1,
     THEN conjunct2, THEN conjunct2, THEN mp, OF conjI [OF crashed_world_simps(1) run2]]
  have second: "\<exists>s' w'. tick key_dumps started crashed_world = (None, s', w')
          \<and> deleted_paths (map snd (new_events crashed_world w')) = []
          \<and> list_recording_files (disk w') = list_recording_files (disk crashed_world)"
    by (rule exI [of _ s2], rule exI [of _ w2])
       (intro conjI run2 r2 [THEN conjunct1] r2 [THEN conjunct2, THEN conjunct1])
  have gone: "child_exit (idle_world\<lparr>disk := Inl FileNotFoundError\<rparr>) = None"
    and gone_disk: "disk (idle_world\<lparr>disk := Inl FileNotFoundError\<rparr>) = Inl FileNotFoundError"
    by (simp_all add: idle_world_def)
  have run3: "tick key_dumps started (idle_world\<lparr>disk := Inl FileNotFoundError\<rparr>)
       = (Some FileNotFoundError, started,
          idle_world\<lparr>disk := Inl FileNotFoundError, clock := 1010\<rparr>)"
    using tick_absent_directory [OF gone gone_disk, of key_dumps started]
    by (simp add: idle_world_def CHECK_EVERY_SECONDS_def)
  have third: "published (map snd (new_events (idle_world\<lparr>disk := Inl FileNotFoundError\<rparr>)
         (idle_world\<lparr>disk := Inl FileNotFoundError, clock := 1010\<rparr>))) = []"
    by (rule publication_after_reclaim [THEN conjunct2, THEN conjunct1, THEN mp,
          OF conjI [OF gone run3]])
  show ?thesis
    by (intro conjI alive first crashed_world_simps(1) second gone run3 third)
qed

end
